theory Spec2Isabelle
  imports Main
begin

section \<open>The dataserv client (\<^verbatim>\<open>dataserv_client/api.py\<close>)\<close>

text \<open>
  A shallow embedding of the module \<^verbatim>\<open>api.py\<close>: the callback \<^verbatim>\<open>_on_generate_shard\<close>
  and the methods of the class \<^verbatim>\<open>Client\<close>. The collaborators the module imports
  (\<^verbatim>\<open>messaging\<close>, \<^verbatim>\<open>builder\<close>, \<^verbatim>\<open>config\<close>, \<^verbatim>\<open>common\<close>, \<^verbatim>\<open>btctxstore\<close>, the clock) are
  parameters of the model, collected in the record \<open>env\<close>. Calls to \<^verbatim>\<open>logger\<close> and
  \<^verbatim>\<open>print\<close>, and the reads \<^verbatim>\<open>messenger.server_url()\<close> and \<^verbatim>\<open>messenger.auth_address()\<close>
  that only feed them, are left out.
\<close>

subsection \<open>Exceptions and results\<close>

text \<open>
  The exceptions the module names or can raise itself; \<open>Other\<close> stands for any other
  exception that a collaborator raises.
\<close>

datatype error =
    AddressAlreadyRegistered
  | InvalidAddress string
  | InvalidHWIF string
  | ZeroDivisionError
  | OverflowError
  | AttributeError
  | Other string

text \<open>
  A call returns a value, raises, or is still running when the fuel of the
  \<^verbatim>\<open>while True\<close> loop of \<^verbatim>\<open>poll\<close> is used up.
\<close>

datatype 'a result = Return 'a | Raise error | OutOfFuel

subsection \<open>Data\<close>

text \<open>The \<^verbatim>\<open>cfg\<close> dictionary, read at the keys \<^verbatim>\<open>"wallet"\<close> and \<^verbatim>\<open>"payout_address"\<close>.\<close>

record cfg_dict =
  wallet :: string
  payout_address :: string

text \<open>
  The object \<^verbatim>\<open>messaging.Messaging(url, wif, retry_limit, retry_delay, debug=debug)\<close>:
  the arguments it was constructed with; \<^verbatim>\<open>farm\<close> assigns its \<^verbatim>\<open>retry_limit\<close>.
\<close>

record messenger =
  m_url :: string
  m_wif :: string
  m_retry_limit :: int
  m_retry_delay :: int
  m_debug :: bool

text \<open>The attributes of \<^verbatim>\<open>Client\<close> set by \<^verbatim>\<open>__init__\<close>; \<^verbatim>\<open>messenger\<close> starts as \<^verbatim>\<open>None\<close>.\<close>

record client =
  url :: string
  debug :: bool
  max_size :: int
  messenger :: "messenger option"
  retry_limit :: int
  retry_delay :: int
  cfg_path :: string
  store_path :: string
  cfg :: cfg_dict

text \<open>The three remote operations of the messenger that the module calls.\<close>

datatype remote_op = Register string | Ping | Height int

text \<open>The arguments of \<^verbatim>\<open>builder.Builder(...)\<close> and of its \<^verbatim>\<open>build\<close> method.\<close>

record build_request =
  b_address :: string
  b_shard_size :: int
  b_max_size :: int
  b_debug :: bool
  b_store_path :: string
  b_cleanup :: bool
  b_rebuild :: bool
  b_num_cores :: int

text \<open>
  What the module does to the outside, in the order it does it: a call of a messenger
  method (with the messenger as it is at the call), \<^verbatim>\<open>time.sleep\<close>, the start of
  \<^verbatim>\<open>Builder.build\<close>, and \<^verbatim>\<open>config.save\<close>.
\<close>

datatype event =
    Remote messenger remote_op
  | Sleep nat
  | BuilderBuild build_request
  | ConfigSave string cfg_dict

text \<open>
  The outside: the wall clock that \<^verbatim>\<open>datetime.now()\<close> reads, in microseconds since
  \<^verbatim>\<open>datetime.min\<close>, and the events so far, oldest first.
\<close>

record world =
  clock :: nat
  trace :: "event list"

text \<open>
  The collaborators. \<open>reply\<close> tells whether a call raises, given the events before it;
  \<open>elapsed\<close> tells how long it takes, in microseconds (for \<^verbatim>\<open>time.sleep\<close>: how much
  longer than asked). \<open>builder\<close> is \<^verbatim>\<open>Builder(...).build(...)\<close> as this module sees it:
  the heights at which it invokes the callback \<^verbatim>\<open>on_generate_shard\<close>, in order, and what
  it then returns or raises.
\<close>

record env =
  SHARD_SIZE :: int
  DEFAULT_SET_HEIGHT_INTERVAL :: int
  DEFAULT_NUMCORES :: int
  DEFAULT_DELAY :: nat
  get_key :: "string \<Rightarrow> error + string"
  validate_address :: "string \<Rightarrow> bool"
  validate_wallet :: "string \<Rightarrow> bool"
  reply :: "event list \<Rightarrow> event \<Rightarrow> error option"
  elapsed :: "event list \<Rightarrow> event \<Rightarrow> nat"
  builder :: "build_request \<Rightarrow> int list \<times> (error + int)"

subsection \<open>Stateful code: the client object and the outside, threaded through\<close>

type_synonym 'a prog = "client \<times> world \<Rightarrow> 'a result \<times> client \<times> world"

definition ret :: "'a \<Rightarrow> 'a prog" where
  "ret a = (\<lambda>s. (Return a, s))"

definition bind :: "'a prog \<Rightarrow> ('a \<Rightarrow> 'b prog) \<Rightarrow> 'b prog" where
  "bind p f = (\<lambda>s. case p s of
       (Return a, s') \<Rightarrow> f a s'
     | (Raise e, s') \<Rightarrow> (Raise e, s')
     | (OutOfFuel, s') \<Rightarrow> (OutOfFuel, s'))"

definition second :: nat where
  "second = 1000000"

definition duration :: "env \<Rightarrow> event list \<Rightarrow> event \<Rightarrow> nat" where
  "duration env tr e =
     (case e of Sleep d \<Rightarrow> d * second + elapsed env tr e | _ \<Rightarrow> elapsed env tr e)"

definition advance :: "env \<Rightarrow> event \<Rightarrow> world \<Rightarrow> world" where
  "advance env e w =
     w\<lparr>clock := clock w + duration env (trace w) e, trace := trace w @ [e]\<rparr>"

text \<open>A call that may raise.\<close>

definition perform :: "env \<Rightarrow> event \<Rightarrow> unit prog" where
  "perform env e = (\<lambda>(c, w).
     ((case reply env (trace w) e of None \<Rightarrow> Return () | Some err \<Rightarrow> Raise err),
      c, advance env e w))"

text \<open>\<^verbatim>\<open>time.sleep(int(delay))\<close>\<close>

definition sleep :: "env \<Rightarrow> nat \<Rightarrow> unit prog" where
  "sleep env d = (\<lambda>(c, w). (Return (), c, advance env (Sleep d) w))"

text \<open>
  \<^verbatim>\<open>self.messenger.<op>(...)\<close>: an attribute of \<^verbatim>\<open>None\<close> is an \<^verbatim>\<open>AttributeError\<close>.
\<close>

definition remote :: "env \<Rightarrow> remote_op \<Rightarrow> unit prog" where
  "remote env r = (\<lambda>(c, w).
     case messenger c of
       None \<Rightarrow> (Raise AttributeError, c, w)
     | Some m \<Rightarrow> perform env (Remote m r) (c, w))"

subsection \<open>\<^verbatim>\<open>_on_generate_shard\<close>\<close>

text \<open>
  \<^verbatim>\<open>int(a / b)\<close> on Python 3 integers: \<^verbatim>\<open>a / b\<close> is the quotient rounded to the nearest
  double (53 bits, ties to the even one), \<^verbatim>\<open>ZeroDivisionError\<close> for \<open>b = 0\<close> and
  \<^verbatim>\<open>OverflowError\<close> when it is too large for a double; \<^verbatim>\<open>int\<close> cuts the double towards
  zero. \<open>bit_length\<close> is Python's \<^verbatim>\<open>int.bit_length\<close>.
\<close>

function bit_length :: "int \<Rightarrow> nat" where
  "bit_length k = (if k \<le> 0 then 0 else Suc (bit_length (k div 2)))"
  by pat_completeness auto
termination
  by (relation "measure nat") auto

text \<open>\<open>n / d\<close> rounded to the nearest integer, ties to the even one (\<open>0 < d\<close>).\<close>

definition round_half_even :: "int \<Rightarrow> int \<Rightarrow> int" where
  "round_half_even n d =
     (if 2 * (n mod d) < d then n div d
      else if d < 2 * (n mod d) then n div d + 1
      else if even (n div d) then n div d else n div d + 1)"

text \<open>
  For \<open>0 \<le> a\<close> and \<open>0 < b\<close>. Below 1 the double is 1.0 from \<open>1 - 2^-54\<close> on and cut to
  0 otherwise. From 1 on, with \<open>L\<close> the bit length of \<open>a div b\<close>, the double is a multiple
  of \<open>2^(L - 53)\<close>; it is out of range from \<open>2^1024\<close> on.
\<close>

definition int_of_float_quotient :: "int \<Rightarrow> int \<Rightarrow> error + int" where
  "int_of_float_quotient a b =
     (if a < b then Inr (if b * (2 ^ 54 - 1) \<le> a * 2 ^ 54 then 1 else 0)
      else if bit_length (a div b) \<le> 53
      then Inr (round_half_even (a * 2 ^ (53 - bit_length (a div b))) b
                  div 2 ^ (53 - bit_length (a div b)))
      else if 2 ^ 1024
                \<le> round_half_even a (b * 2 ^ (bit_length (a div b) - 53))
                    * 2 ^ (bit_length (a div b) - 53)
      then Inl OverflowError
      else Inr (round_half_even a (b * 2 ^ (bit_length (a div b) - 53))
                  * 2 ^ (bit_length (a div b) - 53)))"

definition int_of_quotient :: "int \<Rightarrow> int \<Rightarrow> error + int" where
  "int_of_quotient a b =
     (if b = 0 then Inl ZeroDivisionError
      else case int_of_float_quotient \<bar>a\<bar> \<bar>b\<bar> of
             Inl e \<Rightarrow> Inl e
           | Inr q \<Rightarrow> Inr (sgn a * sgn b * q))"

definition first :: "int \<Rightarrow> bool" where
  "first cur_height = (cur_height = 1)"

definition set_height :: "int \<Rightarrow> int \<Rightarrow> bool" where
  "set_height cur_height set_height_interval = (cur_height mod set_height_interval = 0)"

definition is_last :: "env \<Rightarrow> client \<Rightarrow> int \<Rightarrow> bool" where
  "is_last env c cur_height = (int_of_quotient (max_size c) (SHARD_SIZE env) = Inr cur_height)"

text \<open>
  The arguments \<^verbatim>\<open>cur_seed\<close> and \<^verbatim>\<open>cur_file_hash\<close> are not used by the callback. The
  remainder (line 40) raises \<^verbatim>\<open>ZeroDivisionError\<close> on a zero interval, then the division
  (line 41) raises on a zero shard size or a quotient too large for a double.
\<close>

definition on_generate_shard :: "env \<Rightarrow> int \<Rightarrow> int \<Rightarrow> unit prog" where
  "on_generate_shard env cur_height set_height_interval = (\<lambda>(c, w).
     if set_height_interval = 0 then (Raise ZeroDivisionError, c, w)
     else case int_of_quotient (max_size c) (SHARD_SIZE env) of
            Inl e \<Rightarrow> (Raise e, c, w)
          | Inr q \<Rightarrow>
              if first cur_height \<or> set_height cur_height set_height_interval
                   \<or> is_last env c cur_height
              then remote env (Height cur_height) (c, w)
              else (Return (), c, w))"

subsection \<open>\<^verbatim>\<open>Client\<close>\<close>

definition new_messenger :: "client \<Rightarrow> string \<Rightarrow> messenger" where
  "new_messenger c wif =
     \<lparr>m_url = url c, m_wif = wif, m_retry_limit = retry_limit c,
      m_retry_delay = retry_delay c, m_debug = debug c\<rparr>"

definition init_messenger :: "env \<Rightarrow> unit prog" where
  "init_messenger env = (\<lambda>(c, w).
     case messenger c of
       Some m \<Rightarrow> (Return (), c, w)
     | None \<Rightarrow>
        (case get_key env (wallet (cfg c)) of
           Inl e \<Rightarrow> (Raise e, c, w)
         | Inr wif \<Rightarrow> (Return (), c\<lparr>messenger := Some (new_messenger c wif)\<rparr>, w)))"

definition register :: "env \<Rightarrow> bool prog" where
  "register env =
     bind (init_messenger env) (\<lambda>_.
     bind (\<lambda>(c, w). remote env (Register (payout_address (cfg c))) (c, w)) (\<lambda>_.
     ret True))"

text \<open>Python's truth value of an optional string: \<^verbatim>\<open>None\<close> and \<^verbatim>\<open>""\<close> are false.\<close>

definition truthy :: "string option \<Rightarrow> bool" where
  "truthy x = (case x of None \<Rightarrow> False | Some s \<Rightarrow> s \<noteq> [])"

definition update_cfg :: "string option \<Rightarrow> string option \<Rightarrow> bool prog" where
  "update_cfg set_wallet set_payout_address = (\<lambda>(c, w).
     let c1 = (if truthy set_payout_address
               then c\<lparr>cfg := (cfg c)\<lparr>payout_address := the set_payout_address\<rparr>\<rparr> else c);
         c2 = (if truthy set_wallet
               then c1\<lparr>cfg := (cfg c1)\<lparr>wallet := the set_wallet\<rparr>\<rparr> else c1)
     in (Return (truthy set_payout_address \<or> truthy set_wallet), c2, w))"

definition save :: "env \<Rightarrow> unit prog" where
  "save env = (\<lambda>(c, w). perform env (ConfigSave (cfg_path c) (cfg c)) (c, w))"

definition config :: "env \<Rightarrow> string option \<Rightarrow> string option \<Rightarrow> cfg_dict prog" where
  "config env set_wallet set_payout_address = (\<lambda>(c, w).
     if set_payout_address \<noteq> None \<and> \<not> validate_address env (the set_payout_address)
     then (Raise (InvalidAddress (the set_payout_address)), c, w)
     else if set_wallet \<noteq> None \<and> \<not> validate_wallet env (the set_wallet)
     then (Raise (InvalidHWIF (the set_wallet)), c, w)
     else bind (init_messenger env) (\<lambda>_.
          bind (update_cfg set_wallet set_payout_address) (\<lambda>config_updated.
          bind (if config_updated then save env else ret ()) (\<lambda>_.
          (\<lambda>(c', w'). (Return (cfg c'), c', w'))))) (c, w))"

definition ping :: "env \<Rightarrow> bool prog" where
  "ping env =
     bind (init_messenger env) (\<lambda>_.
     bind (remote env Ping) (\<lambda>_.
     ret True))"

text \<open>
  The loop of \<^verbatim>\<open>poll\<close>; \<open>stop_time\<close> is in microseconds. The fuel bounds the number of
  iterations.
\<close>

fun poll_loop :: "env \<Rightarrow> nat \<Rightarrow> int option \<Rightarrow> nat \<Rightarrow> bool prog" where
  "poll_loop env 0 stop_time delay = (\<lambda>s. (OutOfFuel, s))"
| "poll_loop env (Suc fuel) stop_time delay =
     bind (ping env) (\<lambda>_. (\<lambda>(c, w).
       if stop_time \<noteq> None \<and> int (clock w) \<ge> the stop_time
       then (Return True, c, w)
       else bind (sleep env delay) (\<lambda>_. poll_loop env fuel stop_time delay) (c, w)))"

text \<open>
  \<^verbatim>\<open>datetime.now() + timedelta(seconds=int(limit))\<close>. The clock counts the microseconds
  since \<^verbatim>\<open>datetime.min\<close>, and \<open>datetime_max\<close> is the first count after \<^verbatim>\<open>datetime.max\<close>
  (the end of the year 9999; \<^verbatim>\<open>datetime.max.toordinal()\<close> is 3652059). \<^verbatim>\<open>timedelta\<close>
  raises \<^verbatim>\<open>OverflowError\<close> when its days, \<open>limit div 86400\<close>, are more than 999999999 either
  way, and the sum raises it when it is not a \<^verbatim>\<open>datetime\<close>.
\<close>

definition datetime_max :: int where
  "datetime_max = 3652059 * 86400 * 1000000"

definition stop_time_of :: "world \<Rightarrow> int \<Rightarrow> error + int" where
  "stop_time_of w limit =
     (if limit div 86400 < - 999999999 \<or> 999999999 < limit div 86400 then Inl OverflowError
      else if int (clock w) + limit * int second < 0
                \<or> datetime_max \<le> int (clock w) + limit * int second
      then Inl OverflowError
      else Inr (int (clock w) + limit * int second))"

text \<open>
  \<open>delay\<close> is the value of \<^verbatim>\<open>deserialize.positive_integer(delay)\<close> and \<open>register_address\<close>
  that of \<^verbatim>\<open>deserialize.flag(register_address)\<close>; \<open>limit\<close> is \<^verbatim>\<open>None\<close> or an integer.
\<close>

definition poll :: "env \<Rightarrow> nat \<Rightarrow> bool \<Rightarrow> nat \<Rightarrow> int option \<Rightarrow> bool prog" where
  "poll env fuel register_address delay limit = (\<lambda>(c, w).
     if limit \<noteq> None \<and> the limit \<noteq> 0
     then (case stop_time_of w (the limit) of
             Inl e \<Rightarrow> (Raise e, c, w)
           | Inr stop_time \<Rightarrow>
               bind (if register_address then bind (register env) (\<lambda>_. ret ()) else ret ())
                 (\<lambda>_. poll_loop env fuel (Some stop_time) delay) (c, w))
     else bind (if register_address then bind (register env) (\<lambda>_. ret ()) else ret ())
            (\<lambda>_. poll_loop env fuel None delay) (c, w))"

text \<open>The builder invokes the callback at each of its heights; a raise ends the build.\<close>

fun run_callbacks :: "env \<Rightarrow> int \<Rightarrow> int list \<Rightarrow> unit prog" where
  "run_callbacks env set_height_interval [] = ret ()"
| "run_callbacks env set_height_interval (h # hs) =
     bind (on_generate_shard env h set_height_interval) (\<lambda>_.
     run_callbacks env set_height_interval hs)"

definition the_request :: "env \<Rightarrow> client \<Rightarrow> bool \<Rightarrow> bool \<Rightarrow> int \<Rightarrow> build_request" where
  "the_request env c cleanup rebuild num_cores =
     \<lparr>b_address = payout_address (cfg c), b_shard_size = SHARD_SIZE env,
      b_max_size = max_size c, b_debug = debug c, b_store_path = store_path c,
      b_cleanup = cleanup, b_rebuild = rebuild, b_num_cores = num_cores\<rparr>"

text \<open>
  The arguments are the values of the \<^verbatim>\<open>deserialize\<close> functions. The result is
  \<^verbatim>\<open>generated\<close>.
\<close>

definition build :: "env \<Rightarrow> bool \<Rightarrow> bool \<Rightarrow> int \<Rightarrow> int \<Rightarrow> int prog" where
  "build env cleanup rebuild set_height_interval num_cores =
     bind (init_messenger env) (\<lambda>_. (\<lambda>(c, w).
       let req = the_request env c cleanup rebuild num_cores
       in bind (run_callbacks env set_height_interval (fst (builder env req))) (\<lambda>_.
            (\<lambda>s. case snd (builder env req) of
                    Inl e \<Rightarrow> (Raise e, s)
                  | Inr generated \<Rightarrow> (Return generated, s)))
          (c, advance env (BuilderBuild req) w)))"

definition farm_retry_limit :: int where
  "farm_retry_limit = 99999999999999999999999999999999999999"

text \<open>\<^verbatim>\<open>self.messenger.retry_limit = ...\<close>\<close>

definition set_retry_limit :: "int \<Rightarrow> unit prog" where
  "set_retry_limit n = (\<lambda>(c, w).
     case messenger c of
       None \<Rightarrow> (Raise AttributeError, c, w)
     | Some m \<Rightarrow> (Return (), c\<lparr>messenger := Some (m\<lparr>m_retry_limit := n\<rparr>)\<rparr>, w))"

text \<open>\<^verbatim>\<open>try: self.register()  except exceptions.AddressAlreadyRegistered: pass\<close>\<close>

definition try_register :: "env \<Rightarrow> unit prog" where
  "try_register env = (\<lambda>s. case register env s of
       (Return _, s') \<Rightarrow> (Return (), s')
     | (Raise AddressAlreadyRegistered, s') \<Rightarrow> (Return (), s')
     | (Raise e, s') \<Rightarrow> (Raise e, s')
     | (OutOfFuel, s') \<Rightarrow> (OutOfFuel, s'))"

definition farm :: "env \<Rightarrow> nat \<Rightarrow> unit prog" where
  "farm env fuel =
     bind (init_messenger env) (\<lambda>_.
     bind (set_retry_limit farm_retry_limit) (\<lambda>_.
     bind (try_register env) (\<lambda>_.
     bind (build env False False (DEFAULT_SET_HEIGHT_INTERVAL env) (DEFAULT_NUMCORES env)) (\<lambda>_.
     bind (poll env fuel False (DEFAULT_DELAY env) None) (\<lambda>_.
     ret ())))))"

subsection \<open>Reading the trace\<close>

text \<open>The heights reported to the server, in the order of the reports.\<close>

fun reported :: "event list \<Rightarrow> int list" where
  "reported [] = []"
| "reported (Remote m (Height h) # es) = h # reported es"
| "reported (e # es) = reported es"

fun is_ping :: "event \<Rightarrow> bool" where
  "is_ping (Remote m Ping) = True"
| "is_ping e = False"

fun is_register :: "event \<Rightarrow> bool" where
  "is_register (Remote m (Register a)) = True"
| "is_register e = False"

text \<open>The messenger a remote call goes through.\<close>

fun carried :: "event \<Rightarrow> messenger option" where
  "carried (Remote m r) = Some m"
| "carried e = None"

text \<open>The phase of \<^verbatim>\<open>farm\<close> an event belongs to: registering, building, polling.\<close>

fun farm_phase :: "event \<Rightarrow> nat" where
  "farm_phase (Remote m (Register a)) = 0"
| "farm_phase (BuilderBuild req) = 1"
| "farm_phase (Remote m (Height h)) = 1"
| "farm_phase (Remote m Ping) = 2"
| "farm_phase (Sleep d) = 2"
| "farm_phase (ConfigSave p d) = 3"

text \<open>\<open>n + 1\<close> pings through \<open>m\<close> with a sleep of \<open>delay\<close> seconds between two of them.\<close>

fun ping_pattern :: "messenger \<Rightarrow> nat \<Rightarrow> nat \<Rightarrow> event list" where
  "ping_pattern m delay 0 = [Remote m Ping]"
| "ping_pattern m delay (Suc n) = Remote m Ping # Sleep delay # ping_pattern m delay n"

subsection \<open>The public operations, one after another on the same client\<close>

datatype operation =
    OpRegister
  | OpConfig "string option" "string option"
  | OpPing
  | OpPoll bool nat "int option"
  | OpBuild bool bool int int
  | OpFarm

definition discard :: "'a prog \<Rightarrow> unit prog" where
  "discard p = bind p (\<lambda>_. ret ())"

fun run_op :: "env \<Rightarrow> nat \<Rightarrow> operation \<Rightarrow> unit prog" where
  "run_op env fuel OpRegister = discard (register env)"
| "run_op env fuel (OpConfig set_wallet set_payout_address) =
     discard (config env set_wallet set_payout_address)"
| "run_op env fuel OpPing = discard (ping env)"
| "run_op env fuel (OpPoll register_address delay limit) =
     discard (poll env fuel register_address delay limit)"
| "run_op env fuel (OpBuild cleanup rebuild set_height_interval num_cores) =
     discard (build env cleanup rebuild set_height_interval num_cores)"
| "run_op env fuel OpFarm = farm env fuel"


subsection \<open>The specification's words\<close>

text \<open>
  The specification's \<^verbatim>\<open>total_height = ceil(max_size / shard_size)\<close>, to be compared with
  \<open>is_last\<close>.
\<close>

definition spec_total_height :: "int \<Rightarrow> int \<Rightarrow> int" where
  "spec_total_height max_size' shard_size = - ((- max_size') div shard_size)"

text \<open>
  Modelled from the spec: the retry algorithm of \<^verbatim>\<open>messaging.Messaging\<close>, a module that
  is not among the sources; \<^verbatim>\<open>api.py\<close> only hands it the policy \<open>(limit, delay)\<close>.
  The specification (4.3): on a retryable failure, wait \<open>delay\<close> seconds and retry, up to
  \<open>limit\<close> attempts; exceeding the limit surfaces \<^verbatim>\<open>ConnectionExhausted\<close>. \<open>server k\<close> is
  the outcome of attempt \<open>k\<close>.
\<close>

datatype attempt = Succeeded | Retryable | Fatal

datatype delivery = Delivered | FatalFailure | ConnectionExhausted

datatype action = Attempt nat | Wait int

fun with_retry :: "(nat \<Rightarrow> attempt) \<Rightarrow> int \<Rightarrow> nat \<Rightarrow> nat \<Rightarrow> delivery \<times> action list" where
  "with_retry server delay 0 k = (ConnectionExhausted, [])"
| "with_retry server delay (Suc left) k =
     (case server k of
        Succeeded \<Rightarrow> (Delivered, [Attempt k])
      | Fatal \<Rightarrow> (FatalFailure, [Attempt k])
      | Retryable \<Rightarrow>
          if left = 0 then (ConnectionExhausted, [Attempt k])
          else (fst (with_retry server delay left (Suc k)),
                Attempt k # Wait delay # snd (with_retry server delay left (Suc k))))"

definition retry_call :: "messenger \<Rightarrow> (nat \<Rightarrow> attempt) \<Rightarrow> delivery \<times> action list" where
  "retry_call m server = with_retry server (m_retry_delay m) (nat (m_retry_limit m)) 0"

fun is_attempt :: "action \<Rightarrow> bool" where
  "is_attempt (Attempt k) = True"
| "is_attempt (Wait d) = False"

text \<open>Attempts \<open>k\<close>, \<open>k + 1\<close>, ... , \<open>n\<close> of them, with a wait between two of them.\<close>

fun attempts_and_waits :: "int \<Rightarrow> nat \<Rightarrow> nat \<Rightarrow> action list" where
  "attempts_and_waits delay 0 k = []"
| "attempts_and_waits delay (Suc n) k =
     (if n = 0 then [Attempt k]
      else Attempt k # Wait delay # attempts_and_waits delay n (Suc k))"

subsection \<open>Concrete clients and collaborators\<close>

text \<open>
  Collaborators with which every call succeeds at once, shards of one byte, and a builder
  that invokes the callback at the heights \<open>1, ..., max_size div shard_size\<close>.
\<close>

definition quiet_env :: env where
  "quiet_env =
     \<lparr>SHARD_SIZE = 1, DEFAULT_SET_HEIGHT_INTERVAL = 4, DEFAULT_NUMCORES = 1,
      DEFAULT_DELAY = 15,
      get_key = (\<lambda>hwif. Inr hwif),
      validate_address = (\<lambda>a. a = ''good-address''),
      validate_wallet = (\<lambda>h. h = ''good-wallet''),
      reply = (\<lambda>tr e. None),
      elapsed = (\<lambda>tr e. 0),
      builder = (\<lambda>req. ([1..b_max_size req div b_shard_size req],
                          Inr (b_max_size req div b_shard_size req)))\<rparr>"

definition a_messenger :: messenger where
  "a_messenger =
     \<lparr>m_url = ''http://server'', m_wif = ''good-wallet'', m_retry_limit = 3,
      m_retry_delay = 0, m_debug = False\<rparr>"

definition fresh_client :: client where
  "fresh_client =
     \<lparr>url = ''http://server'', debug = False, max_size = 10, messenger = None,
      retry_limit = 3, retry_delay = 0, cfg_path = ''cfg.json'', store_path = ''store'',
      cfg = \<lparr>wallet = ''good-wallet'', payout_address = ''good-address''\<rparr>\<rparr>"

definition a_client :: client where
  "a_client = fresh_client\<lparr>messenger := Some a_messenger\<rparr>"

definition start :: world where
  "start = \<lparr>clock = 0, trace = []\<rparr>"

subsection \<open>Events of a run\<close>

text \<open>
  A run of \<open>p\<close> from a client with \<open>I\<close> ends in a client with \<open>I\<close> and adds only events
  with \<open>Q\<close> to the trace.
\<close>

definition emits :: "(client \<Rightarrow> bool) \<Rightarrow> (event \<Rightarrow> bool) \<Rightarrow> 'a prog \<Rightarrow> bool" where
  "emits I Q p = (\<forall>c w r c' w'. I c \<longrightarrow> p (c, w) = (r, c', w') \<longrightarrow>
       I c' \<and> (\<exists>evs. trace w' = trace w @ evs \<and> list_all Q evs))"

declare poll_loop.simps(2) [simp del]

declare bit_length.simps [simp del]

lemma reported_append: "reported (xs @ ys) = reported xs @ reported ys"
  by (induction xs rule: reported.induct) auto

lemma trace_advance: "trace (advance env e w) = trace w @ [e]"
  by (simp add: advance_def)

lemma clock_advance: "clock (advance env e w) = clock w + duration env (trace w) e"
  by (simp add: advance_def)

lemma bit_length_pos: "0 < k \<Longrightarrow> bit_length k = Suc (bit_length (k div 2))"
  by (simp add: bit_length.simps[of k])

lemma bit_length_nonpos: "k \<le> 0 \<Longrightarrow> bit_length k = 0"
  by (simp add: bit_length.simps[of k])

lemma bit_length_bounds:
  "0 < k \<Longrightarrow> 2 ^ (bit_length k - 1) \<le> k \<and> k < 2 ^ bit_length k"
proof (induction k rule: bit_length.induct)
  case (1 k)
  show ?case
  proof (cases "k div 2 \<le> 0")
    case True
    with "1.prems" have "k = 1" by linarith
    then show ?thesis by (simp add: bit_length_pos bit_length_nonpos)
  next
    case False
    then have pos: "0 < k div 2" by simp
    from "1.IH"[OF _ pos] "1.prems"
    have ih: "2 ^ (bit_length (k div 2) - 1) \<le> k div 2" "k div 2 < 2 ^ bit_length (k div 2)"
      by simp_all
    have bl: "bit_length k = Suc (bit_length (k div 2))"
      using "1.prems" by (rule bit_length_pos)
    obtain j where j: "bit_length (k div 2) = Suc j"
      using bit_length_pos[OF pos] by simp
    have "2 * 2 ^ j \<le> 2 * (k div 2)" using ih(1) j by simp
    also have "\<dots> \<le> k" by linarith
    finally have lo: "2 ^ (bit_length k - 1) \<le> k" using bl j by simp
    have "k < 2 * (k div 2) + 2" by linarith
    also have "\<dots> \<le> 2 * 2 ^ bit_length (k div 2)" using ih(2) by simp
    finally have hi: "k < 2 ^ bit_length k" using bl by simp
    show ?thesis using lo hi by simp
  qed
qed

lemma round_half_even_cases:
  assumes "0 < d"
  shows "round_half_even n d = n div d
       \<or> (round_half_even n d = n div d + 1 \<and> d \<le> 2 * (n mod d))"
  by (auto simp add: round_half_even_def)

text \<open>Below \<open>2^53\<close> the double is exact enough: the result is the quotient rounded down.\<close>

lemma float_quotient_exact:
  assumes a: "0 \<le> a" "a < 2 ^ 53" and b: "0 < b"
  shows "int_of_float_quotient a b = Inr (a div b)"
proof (cases "a < b")
  case True
  have "\<not> b * (2 ^ 54 - 1) \<le> a * 2 ^ 54"
    using True a b by simp
  moreover have "a div b = 0" using True a by (simp add: div_pos_pos_trivial)
  ultimately show ?thesis using True by (simp add: int_of_float_quotient_def)
next
  case False
  define k where "k = a div b"
  define L where "L = bit_length k"
  have kpos: "0 < k" using False b unfolding k_def by (simp add: pos_imp_zdiv_pos_iff)
  define r where "r = a mod b"
  have r: "0 \<le> r" "r < b" "a = k * b + r" unfolding r_def k_def using b by simp_all
  have kb: "k * b \<le> a" using r(1,3) by simp
  have "k * 1 \<le> k * b" by (rule mult_left_mono) (use kpos b in auto)
  then have "k \<le> a" using kb by simp
  then have klt: "k < 2 ^ 53" using a by simp
  from bit_length_bounds[OF kpos]
  have kl: "(2::int) ^ (L - 1) \<le> k" and ku: "k < 2 ^ L" unfolding L_def by simp_all
  have Lpos: "0 < L" using bit_length_pos[OF kpos] unfolding L_def by simp
  have L53: "L \<le> 53"
  proof (rule ccontr)
    assume "\<not> L \<le> 53"
    then have "53 \<le> L - 1" by simp
    then have "(2::int) ^ 53 \<le> 2 ^ (L - 1)" by (rule power_increasing) simp
    then show False using kl klt by linarith
  qed
  define S :: int where "S = 2 ^ (53 - L)"
  have Spos: "0 < S" unfolding S_def by simp
  define f where "f = (a * S) div b"
  define t where "t = (a * S) mod b"
  have t: "0 \<le> t" "t < b" "a * S = f * b + t" unfolding t_def f_def using b by simp_all
  have flo: "k * S \<le> f"
  proof -
    have "k * S * b \<le> a * S" using kb Spos by (simp add: mult.commute mult.left_commute mult_left_mono)
    then have "(k * S * b) div b \<le> (a * S) div b" by (rule zdiv_mono1) (rule b)
    then show ?thesis using b unfolding f_def by simp
  qed
  have fhi: "f < (k + 1) * S"
  proof -
    have "a < (k + 1) * b" using r by (simp add: algebra_simps)
    then have "a * S < (k + 1) * b * S" using Spos by simp
    then have "a * S < ((k + 1) * S) * b" by (simp add: algebra_simps)
    moreover have "f * b \<le> a * S" using t(1,3) by simp
    ultimately have "f * b < ((k + 1) * S) * b" by linarith
    then show ?thesis using b by (simp only: mult_less_cancel_right_pos)
  qed
  define m where "m = round_half_even (a * S) b"
  from round_half_even_cases[OF b, of "a * S"]
  have mc: "m = f \<or> (m = f + 1 \<and> b \<le> 2 * t)" unfolding m_def f_def t_def by simp
  have mhi: "m < (k + 1) * S"
  proof (rule ccontr)
    assume "\<not> m < (k + 1) * S"
    with mc fhi have m1: "m = f + 1" and bt: "b \<le> 2 * t" and feq: "f = (k + 1) * S - 1"
      by auto
    have "a * S = ((k + 1) * S - 1) * b + t" using t(3) feq by simp
    then have "r * S = (S - 1) * b + t" using r(3) by (simp add: algebra_simps)
    then have "2 * (r * S) \<ge> 2 * ((S - 1) * b) + b" using bt by simp
    moreover have "r * S \<le> (b - 1) * S" using r(2) Spos by (simp add: mult_right_mono)
    ultimately have "2 * ((b - 1) * S) \<ge> 2 * ((S - 1) * b) + b" by linarith
    then have b2S: "2 * S \<le> b" by (simp add: algebra_simps)
    have step: "2 ^ (L - 1) * (2 * S) \<le> k * b"
      using kl b2S kpos Spos by (intro mult_mono) simp_all
    have pw: "(2::int) ^ (L - 1) * (2 * S) = 2 ^ 53"
    proof -
      have "(2::int) ^ (L - 1) * (2 * 2 ^ (53 - L)) = 2 ^ ((L - 1) + 1 + (53 - L))"
        by (simp add: power_add)
      moreover have "(L - 1) + 1 + (53 - L) = 53" using Lpos L53 by simp
      ultimately show ?thesis unfolding S_def by simp
    qed
    have "2 ^ 53 \<le> a" using step kb unfolding pw by linarith
    then show False using a by linarith
  qed
  have mlo: "k * S \<le> m" using mc flo by auto
  have "m div S = k"
  proof (rule int_div_pos_eq)
    show "m = S * k + (m - k * S)" by simp
    show "0 \<le> m - k * S" using mlo by simp
    show "m - k * S < S" using mhi by (simp add: algebra_simps)
  qed
  then show ?thesis
    using False L53 unfolding int_of_float_quotient_def m_def S_def L_def k_def by simp
qed

lemma int_of_quotient_exact:
  assumes "0 \<le> a" "a < 2 ^ 53" "0 < b"
  shows "int_of_quotient a b = Inr (a div b)"
proof (cases "a = 0")
  case True
  then show ?thesis
    using assms float_quotient_exact[of 0 b] by (simp add: int_of_quotient_def)
next
  case False
  then have "sgn a = 1" "sgn b = 1" "\<bar>a\<bar> = a" "\<bar>b\<bar> = b" using assms by simp_all
  then show ?thesis
    using assms float_quotient_exact[of a b] by (simp add: int_of_quotient_def)
qed

lemma bit_length_power: "bit_length (2 ^ n) = Suc n"
proof (induction n)
  case 0
  show ?case by (simp add: bit_length_pos bit_length_nonpos)
next
  case (Suc n)
  have "bit_length (2 ^ Suc n) = Suc (bit_length (2 ^ Suc n div 2))"
    by (rule bit_length_pos) simp
  then show ?case using Suc.IH by simp
qed

text \<open>
  From \<open>2^53\<close> on the double is not the quotient: a capacity of 9007199523176447 bytes in
  shards of \<open>2^27\<close> bytes has the quotient 67108865.99..., and \<^verbatim>\<open>int(a / b)\<close> is 67108866;
  \<^verbatim>\<open>int((2**53 + 1) / 1)\<close> is \<open>2^53\<close>; and \<open>2^1024\<close> is too large for a double.
\<close>

lemma float_quotient_beyond_exact:
  "int_of_quotient 9007199523176447 134217728 = Inr 67108866"
  "9007199523176447 div 134217728 = (67108865::int)"
  "int_of_quotient (2 ^ 53 + 1) 1 = Inr (2 ^ 53)"
  by (simp_all add: int_of_quotient_def int_of_float_quotient_def round_half_even_def
      bit_length_pos bit_length_nonpos)

lemma float_quotient_overflow: "int_of_quotient (2 ^ 1024) 1 = Inl OverflowError"
proof -
  have bl: "bit_length ((2::int) ^ 1024 div 1) = 1025"
    by (simp only: div_by_1 bit_length_power)
  have "int_of_float_quotient (2 ^ 1024) 1 = Inl OverflowError"
    unfolding int_of_float_quotient_def bl by (simp add: round_half_even_def)
  then show ?thesis by (simp add: int_of_quotient_def)
qed

lemma int_of_quotient_zero: "int_of_quotient a 0 = Inl ZeroDivisionError"
  by (simp add: int_of_quotient_def)

lemma remote_Some:
  "messenger c = Some m \<Longrightarrow> remote env r (c, w) =
     ((case reply env (trace w) (Remote m r) of None \<Rightarrow> Return () | Some err \<Rightarrow> Raise err),
      c, advance env (Remote m r) w)"
  by (simp add: remote_def perform_def)

lemma init_messenger_Some:
  "messenger c = Some m \<Longrightarrow> init_messenger env (c, w) = (Return (), c, w)"
  by (simp add: init_messenger_def)

lemma init_messenger_cases:
  assumes "init_messenger env (c, w) = (r, c', w')"
  shows "w' = w \<and>
     ((r = Return () \<and> c' = c \<and> messenger c \<noteq> None)
      \<or> (\<exists>e. r = Raise e \<and> c' = c \<and> messenger c = None \<and> get_key env (wallet (cfg c)) = Inl e)
      \<or> (\<exists>wif. r = Return () \<and> messenger c = None \<and> get_key env (wallet (cfg c)) = Inr wif
            \<and> c' = c\<lparr>messenger := Some (new_messenger c wif)\<rparr>))"
  using assms by (auto simp add: init_messenger_def split: option.splits sum.splits)

text \<open>What an operation does once the messenger is known.\<close>

lemma register_Some:
  assumes "messenger c = Some m"
  shows "register env (c, w) =
     ((case reply env (trace w) (Remote m (Register (payout_address (cfg c)))) of
         None \<Rightarrow> Return True | Some err \<Rightarrow> Raise err),
      c, advance env (Remote m (Register (payout_address (cfg c)))) w)"
  using assms
  by (simp add: register_def bind_def init_messenger_Some remote_Some ret_def split: option.splits)

lemma ping_Some:
  assumes "messenger c = Some m"
  shows "ping env (c, w) =
     ((case reply env (trace w) (Remote m Ping) of None \<Rightarrow> Return True | Some err \<Rightarrow> Raise err),
      c, advance env (Remote m Ping) w)"
  using assms
  by (simp add: ping_def bind_def init_messenger_Some remote_Some ret_def split: option.splits)

text \<open>An operation that starts with \<open>init_messenger\<close> runs as on the initialised client.\<close>

lemma init_absorbed:
  assumes "init_messenger env (c, w) = (Return (), c0, w0)"
  shows "bind (init_messenger env) f (c, w) = bind (init_messenger env) f (c0, w)"
  using assms by (auto simp add: init_messenger_def bind_def split: option.splits sum.splits)

lemma init_result_Some:
  assumes "init_messenger env (c, w) = (Return (), c0, w0)"
  shows "w0 = w \<and> (\<exists>m. messenger c0 = Some m)"
  using assms by (auto simp add: init_messenger_def split: option.splits sum.splits)

lemma poll_loop_Suc_Some:
  assumes "messenger c = Some m"
  shows "poll_loop env (Suc fuel) stop_time delay (c, w) =
     (case reply env (trace w) (Remote m Ping) of
        Some e \<Rightarrow> (Raise e, c, advance env (Remote m Ping) w)
      | None \<Rightarrow>
         if stop_time \<noteq> None \<and> int (clock (advance env (Remote m Ping) w)) \<ge> the stop_time
         then (Return True, c, advance env (Remote m Ping) w)
         else poll_loop env fuel stop_time delay
                (c, advance env (Sleep delay) (advance env (Remote m Ping) w)))"
  using assms
  by (simp add: poll_loop.simps ping_Some bind_def sleep_def split: option.splits)

lemma ping_absorbed:
  assumes "init_messenger env (c, w) = (Return (), c0, w0)"
  shows "ping env (c, w) = ping env (c0, w)"
  unfolding ping_def by (rule init_absorbed[OF assms])

lemma poll_loop_absorbed:
  assumes "init_messenger env (c, w) = (Return (), c0, w0)"
  shows "poll_loop env (Suc fuel) stop_time delay (c, w)
       = poll_loop env (Suc fuel) stop_time delay (c0, w)"
  using ping_absorbed[OF assms] by (simp add: poll_loop.simps bind_def)

lemma poll_unlimited:
  assumes "limit = None \<or> limit = Some 0"
  shows "poll env fuel register_address delay limit (c, w) =
     bind (if register_address then bind (register env) (\<lambda>_. ret ()) else ret ())
       (\<lambda>_. poll_loop env fuel None delay) (c, w)"
  using assms by (auto simp add: poll_def)

lemma poll_limited:
  assumes "limit \<noteq> 0" and "stop_time_of w limit = Inr stop_time"
  shows "poll env fuel register_address delay (Some limit) (c, w) =
     bind (if register_address then bind (register env) (\<lambda>_. ret ()) else ret ())
       (\<lambda>_. poll_loop env fuel (Some stop_time) delay) (c, w)"
  using assms by (simp add: poll_def)

lemma poll_overflow:
  assumes "limit \<noteq> 0" and "stop_time_of w limit = Inl e"
  shows "poll env fuel register_address delay (Some limit) (c, w) = (Raise e, c, w)"
  using assms by (simp add: poll_def)

lemma stop_time_of_Inr:
  assumes "stop_time_of w limit = Inr stop_time"
  shows "stop_time = int (clock w) + limit * int second"
  using assms by (auto simp add: stop_time_of_def split: if_splits)

lemma stop_time_of_Inl:
  assumes "stop_time_of w limit = Inl e"
  shows "e = OverflowError"
  using assms by (auto simp add: stop_time_of_def split: if_splits)



lemma poll_loop_None_runs:
  assumes "messenger c = Some m" and "\<forall>tr. reply env tr (Remote m Ping) = None"
  shows "\<exists>w'. poll_loop env fuel None delay (c, w) = (OutOfFuel, c, w')
          \<and> length (filter is_ping (trace w')) = length (filter is_ping (trace w)) + fuel"
proof (induction fuel arbitrary: w)
  case 0
  show ?case by simp
next
  case (Suc fuel)
  let ?w2 = "advance env (Sleep delay) (advance env (Remote m Ping) w)"
  have step: "poll_loop env (Suc fuel) None delay (c, w) = poll_loop env fuel None delay (c, ?w2)"
    using assms by (simp add: poll_loop_Suc_Some)
  from Suc.IH[of ?w2] obtain w' where
    "poll_loop env fuel None delay (c, ?w2) = (OutOfFuel, c, w')"
    "length (filter is_ping (trace w')) = length (filter is_ping (trace ?w2)) + fuel"
    by blast
  then show ?case
    unfolding step by (simp add: trace_advance)
qed

lemma poll_loop_return:
  assumes "messenger c = Some m"
    and "poll_loop env fuel (Some t) delay (c, w) = (Return v, c', w')"
  shows "v \<and> c' = c \<and> t \<le> int (clock w')
     \<and> (\<exists>n. trace w' = trace w @ ping_pattern m delay n
            \<and> (int (clock (advance env (Remote m Ping) w)) < t \<longrightarrow> 1 \<le> n))"
  using assms(2)
proof (induction fuel arbitrary: w)
  case 0
  then show ?case by simp
next
  case (Suc fuel)
  let ?w1 = "advance env (Remote m Ping) w"
  let ?w2 = "advance env (Sleep delay) ?w1"
  note unf = poll_loop_Suc_Some[OF assms(1), of env fuel "Some t" delay w]
  show ?case
  proof (cases "reply env (trace w) (Remote m Ping)")
    case (Some e)
    with Suc.prems unf show ?thesis by simp
  next
    case None
    show ?thesis
    proof (cases "t \<le> int (clock ?w1)")
      case True
      with Suc.prems unf None have "v" "c' = c" "w' = ?w1" by simp_all
      moreover have "trace ?w1 = trace w @ ping_pattern m delay 0"
        by (simp add: trace_advance)
      ultimately show ?thesis using True by (intro conjI exI[of _ 0]) simp_all
    next
      case False
      with Suc.prems unf None
      have rec: "poll_loop env fuel (Some t) delay (c, ?w2) = (Return v, c', w')" by simp
      from Suc.IH[OF rec] obtain n where
        n: "v" "c' = c" "t \<le> int (clock w')" "trace w' = trace ?w2 @ ping_pattern m delay n"
        by blast
      have "trace w' = trace w @ ping_pattern m delay (Suc n)"
        using n(4) by (simp add: trace_advance)
      then show ?thesis using n(1-3) by (intro conjI exI[of _ "Suc n"]) simp_all
    qed
  qed
qed

lemma poll_loop_terminates:
  assumes "messenger c = Some m" and "\<forall>tr. reply env tr (Remote m Ping) = None"
    and "0 < delay"
  shows "t \<le> int (clock w) + int fuel * int second
     \<Longrightarrow> \<exists>w'. poll_loop env (Suc fuel) (Some t) delay (c, w) = (Return True, c, w')"
proof (induction fuel arbitrary: w)
  case 0
  let ?w1 = "advance env (Remote m Ping) w"
  have "t \<le> int (clock ?w1)" using 0 by (simp add: clock_advance)
  then show ?case using assms by (simp add: poll_loop_Suc_Some)
next
  case (Suc fuel)
  let ?w1 = "advance env (Remote m Ping) w"
  let ?w2 = "advance env (Sleep delay) ?w1"
  show ?case
  proof (cases "t \<le> int (clock ?w1)")
    case True
    then show ?thesis using assms by (simp add: poll_loop_Suc_Some[where fuel="Suc fuel"])
  next
    case False
    have le: "second \<le> delay * second"
      using assms(3) by (cases delay) simp_all
    have c2: "clock ?w2 = clock w + elapsed env (trace w) (Remote m Ping)
        + (delay * second + elapsed env (trace ?w1) (Sleep delay))"
      by (simp add: clock_advance duration_def)
    have "clock w + second \<le> clock ?w2"
      unfolding c2 using le by linarith
    then have "t \<le> int (clock ?w2) + int fuel * int second"
      using Suc.prems by (simp add: algebra_simps)
    from Suc.IH[OF this] obtain w' where
      "poll_loop env (Suc fuel) (Some t) delay (c, ?w2) = (Return True, c, w')" by blast
    then show ?thesis
      using False assms by (simp add: poll_loop_Suc_Some[where fuel="Suc fuel"])
  qed
qed

lemma emitsD:
  assumes "emits I Q p" "I c" "p (c, w) = (r, c', w')"
  shows "I c' \<and> (\<exists>evs. trace w' = trace w @ evs \<and> list_all Q evs)"
  using assms unfolding emits_def by blast

lemma emitsI:
  assumes "\<And>c w r c' w'. I c \<Longrightarrow> p (c, w) = (r, c', w')
     \<Longrightarrow> I c' \<and> (\<exists>evs. trace w' = trace w @ evs \<and> list_all Q evs)"
  shows "emits I Q p"
  using assms unfolding emits_def by blast

lemma emits_ret: "emits I Q (ret a)"
  by (simp add: emits_def ret_def)

lemma emits_bind:
  assumes p: "emits I Q p" and f: "\<And>a. emits I Q (f a)"
  shows "emits I Q (bind p f)"
proof (rule emitsI)
  fix c w r c' w'
  assume I: "I c" and run: "bind p f (c, w) = (r, c', w')"
  obtain r1 c1 w1 where p1: "p (c, w) = (r1, c1, w1)" by (metis prod_cases3)
  from emitsD[OF p I p1] obtain evs1 where
    1: "I c1" "trace w1 = trace w @ evs1" "list_all Q evs1" by blast
  show "I c' \<and> (\<exists>evs. trace w' = trace w @ evs \<and> list_all Q evs)"
  proof (cases r1)
    case (Return a)
    with run p1 have "f a (c1, w1) = (r, c', w')" by (simp add: bind_def)
    from emitsD[OF f 1(1) this] obtain evs2 where
      2: "I c'" "trace w' = trace w1 @ evs2" "list_all Q evs2" by blast
    have "trace w' = trace w @ (evs1 @ evs2)" using 1(2) 2(2) by simp
    moreover have "list_all Q (evs1 @ evs2)" using 1(3) 2(3) by simp
    ultimately show ?thesis using 2(1) by blast
  next
    case (Raise e)
    with run p1 have "c' = c1" "w' = w1" by (simp_all add: bind_def)
    then show ?thesis using 1 by blast
  next
    case OutOfFuel
    with run p1 have "c' = c1" "w' = w1" by (simp_all add: bind_def)
    then show ?thesis using 1 by blast
  qed
qed

lemma emits_discard: "emits I Q p \<Longrightarrow> emits I Q (discard p)"
  unfolding discard_def by (intro emits_bind emits_ret)

lemma emits_perform: "Q e \<Longrightarrow> emits I Q (perform env e)"
  by (auto simp add: emits_def perform_def trace_advance)

lemma emits_sleep: "Q (Sleep d) \<Longrightarrow> emits I Q (sleep env d)"
  by (auto simp add: emits_def sleep_def trace_advance)

lemma emits_remote:
  assumes "\<And>c m. I c \<Longrightarrow> messenger c = Some m \<Longrightarrow> Q (Remote m r)"
  shows "emits I Q (remote env r)"
proof (rule emitsI)
  fix c w r' c' w'
  assume I: "I c" and run: "remote env r (c, w) = (r', c', w')"
  show "I c' \<and> (\<exists>evs. trace w' = trace w @ evs \<and> list_all Q evs)"
  proof (cases "messenger c")
    case None
    with run I show ?thesis by (simp add: remote_def)
  next
    case (Some m)
    with run have "c' = c" "trace w' = trace w @ [Remote m r]"
      by (auto simp add: remote_Some trace_advance)
    then show ?thesis using I assms[OF I Some] by simp
  qed
qed

lemma emits_init:
  assumes "\<And>c wif. I c \<Longrightarrow> messenger c = None \<Longrightarrow> get_key env (wallet (cfg c)) = Inr wif
     \<Longrightarrow> I (c\<lparr>messenger := Some (new_messenger c wif)\<rparr>)"
  shows "emits I Q (init_messenger env)"
proof (rule emitsI)
  fix c w r c' w'
  assume I: "I c" and run: "init_messenger env (c, w) = (r, c', w')"
  from init_messenger_cases[OF run] I assms[OF I]
  show "I c' \<and> (\<exists>evs. trace w' = trace w @ evs \<and> list_all Q evs)"
    by auto
qed

lemma emits_register:
  assumes "\<And>c wif. I c \<Longrightarrow> messenger c = None \<Longrightarrow> get_key env (wallet (cfg c)) = Inr wif
     \<Longrightarrow> I (c\<lparr>messenger := Some (new_messenger c wif)\<rparr>)"
    and "\<And>c m a. I c \<Longrightarrow> messenger c = Some m \<Longrightarrow> Q (Remote m (Register a))"
  shows "emits I Q (register env)"
proof -
  have "emits I Q (\<lambda>(c, w). remote env (Register (payout_address (cfg c))) (c, w))"
  proof (rule emitsI)
    fix c w r c' w'
    assume I: "I c"
      and "(case (c, w) of (c, w) \<Rightarrow> remote env (Register (payout_address (cfg c))) (c, w))
             = (r, c', w')"
    then have "remote env (Register (payout_address (cfg c))) (c, w) = (r, c', w')" by simp
    moreover have "emits I Q (remote env (Register (payout_address (cfg c))))"
      by (rule emits_remote) (use assms(2) in auto)
    ultimately show "I c' \<and> (\<exists>evs. trace w' = trace w @ evs \<and> list_all Q evs)"
      using I by (blast dest: emitsD)
  qed
  then show ?thesis
    unfolding register_def
    by (intro emits_bind emits_ret emits_init) (use assms(1) in auto)
qed

lemma emits_ping:
  assumes "\<And>c wif. I c \<Longrightarrow> messenger c = None \<Longrightarrow> get_key env (wallet (cfg c)) = Inr wif
     \<Longrightarrow> I (c\<lparr>messenger := Some (new_messenger c wif)\<rparr>)"
    and "\<And>c m. I c \<Longrightarrow> messenger c = Some m \<Longrightarrow> Q (Remote m Ping)"
  shows "emits I Q (ping env)"
  unfolding ping_def
  by (intro emits_bind emits_init emits_remote emits_ret) (use assms in auto)

lemma emits_poll_loop:
  assumes "\<And>c wif. I c \<Longrightarrow> messenger c = None \<Longrightarrow> get_key env (wallet (cfg c)) = Inr wif
     \<Longrightarrow> I (c\<lparr>messenger := Some (new_messenger c wif)\<rparr>)"
    and "\<And>c m. I c \<Longrightarrow> messenger c = Some m \<Longrightarrow> Q (Remote m Ping)"
    and "Q (Sleep delay)"
  shows "emits I Q (poll_loop env fuel stop_time delay)"
proof (induction fuel)
  case 0
  show ?case by (simp add: emits_def)
next
  case (Suc fuel)
  have rest: "emits I Q (bind (sleep env delay) (\<lambda>_. poll_loop env fuel stop_time delay))"
    by (intro emits_bind emits_sleep assms(3) Suc.IH)
  have body: "emits I Q (\<lambda>(c, w).
       if stop_time \<noteq> None \<and> int (clock w) \<ge> the stop_time
       then (Return True, c, w)
       else bind (sleep env delay) (\<lambda>_. poll_loop env fuel stop_time delay) (c, w))"
  proof (rule emitsI)
    fix c w r c' w'
    assume I: "I c" and run: "(case (c, w) of (c, w) \<Rightarrow>
       if stop_time \<noteq> None \<and> int (clock w) \<ge> the stop_time
       then (Return True, c, w)
       else bind (sleep env delay) (\<lambda>_. poll_loop env fuel stop_time delay) (c, w)) = (r, c', w')"
    show "I c' \<and> (\<exists>evs. trace w' = trace w @ evs \<and> list_all Q evs)"
    proof (cases "stop_time \<noteq> None \<and> int (clock w) \<ge> the stop_time")
      case True
      with run I show ?thesis by auto
    next
      case False
      with run have "bind (sleep env delay) (\<lambda>_. poll_loop env fuel stop_time delay) (c, w)
          = (r, c', w')"
        by auto
      then show ?thesis using rest I by (blast dest: emitsD)
    qed
  qed
  show ?case
    unfolding poll_loop.simps
  proof (rule emits_bind)
    show "emits I Q (ping env)"
      by (rule emits_ping) (use assms in auto)
  qed (rule body)
qed

lemma emits_poll:
  assumes "\<And>c wif. I c \<Longrightarrow> messenger c = None \<Longrightarrow> get_key env (wallet (cfg c)) = Inr wif
     \<Longrightarrow> I (c\<lparr>messenger := Some (new_messenger c wif)\<rparr>)"
    and "\<And>c m. I c \<Longrightarrow> messenger c = Some m \<Longrightarrow> Q (Remote m Ping)"
    and "Q (Sleep delay)"
    and "register_address \<Longrightarrow> (\<And>c m a. I c \<Longrightarrow> messenger c = Some m \<Longrightarrow> Q (Remote m (Register a)))"
  shows "emits I Q (poll env fuel register_address delay limit)"
proof (rule emitsI)
  fix c w r c' w'
  assume I: "I c" and run: "poll env fuel register_address delay limit (c, w) = (r, c', w')"
  let ?pre = "if register_address then bind (register env) (\<lambda>_. ret ()) else ret ()"
  have pre: "emits I Q ?pre"
  proof (cases register_address)
    case True
    have "emits I Q (register env)"
      by (rule emits_register) (use assms(1) assms(4)[OF True] in auto)
    then show ?thesis using True by (auto intro!: emits_bind emits_ret)
  next
    case False
    then show ?thesis by (simp add: emits_ret)
  qed
  have loop: "emits I Q (poll_loop env fuel st delay)" for st
    by (rule emits_poll_loop) (use assms(1-3) in auto)
  have all: "emits I Q (bind ?pre (\<lambda>_. poll_loop env fuel st delay))" for st
    by (intro emits_bind pre loop)
  show "I c' \<and> (\<exists>evs. trace w' = trace w @ evs \<and> list_all Q evs)"
  proof (cases "limit = None \<or> limit = Some 0")
    case True
    from run have "bind ?pre (\<lambda>_. poll_loop env fuel None delay) (c, w) = (r, c', w')"
      unfolding poll_unlimited[OF True] .
    then show ?thesis using all I by (blast dest: emitsD)
  next
    case False
    then obtain l where l: "limit = Some l" "l \<noteq> 0" by auto
    show ?thesis
    proof (cases "stop_time_of w l")
      case (Inl e)
      from run have "c' = c" "w' = w"
        unfolding l(1) poll_overflow[OF l(2) Inl] by simp_all
      then show ?thesis using I by simp
    next
      case (Inr t)
      from run have "bind ?pre (\<lambda>_. poll_loop env fuel (Some t) delay) (c, w) = (r, c', w')"
        unfolding l(1) poll_limited[OF l(2) Inr] .
      then show ?thesis using all I by (blast dest: emitsD)
    qed
  qed
qed

lemma emits_on_generate_shard:
  assumes "\<And>c m. I c \<Longrightarrow> messenger c = Some m \<Longrightarrow> Q (Remote m (Height h))"
  shows "emits I Q (on_generate_shard env h N)"
proof (rule emitsI)
  fix c w r c' w'
  assume I: "I c" and run: "on_generate_shard env h N (c, w) = (r, c', w')"
  show "I c' \<and> (\<exists>evs. trace w' = trace w @ evs \<and> list_all Q evs)"
  proof (cases "remote env (Height h) (c, w) = (r, c', w')")
    case True
    moreover have "emits I Q (remote env (Height h))"
      by (rule emits_remote) (use assms in auto)
    ultimately show ?thesis using I by (blast dest: emitsD)
  next
    case False
    with run have "c' = c" "w' = w"
      by (auto simp add: on_generate_shard_def split: if_splits sum.splits)
    then show ?thesis using I by simp
  qed
qed

lemma emits_run_callbacks:
  assumes "\<And>c m h. I c \<Longrightarrow> messenger c = Some m \<Longrightarrow> Q (Remote m (Height h))"
  shows "emits I Q (run_callbacks env N hs)"
proof (induction hs)
  case Nil
  show ?case by (simp add: emits_ret)
next
  case (Cons h hs)
  have "emits I Q (on_generate_shard env h N)"
    by (rule emits_on_generate_shard) (use assms in auto)
  then show ?case using Cons.IH by (auto intro!: emits_bind)
qed

lemma emits_build:
  assumes "\<And>c wif. I c \<Longrightarrow> messenger c = None \<Longrightarrow> get_key env (wallet (cfg c)) = Inr wif
     \<Longrightarrow> I (c\<lparr>messenger := Some (new_messenger c wif)\<rparr>)"
    and "\<And>req. Q (BuilderBuild req)"
    and "\<And>c m h. I c \<Longrightarrow> messenger c = Some m \<Longrightarrow> Q (Remote m (Height h))"
  shows "emits I Q (build env cleanup rebuild N num_cores)"
proof -
  have body: "emits I Q (\<lambda>(c, w).
       let req = the_request env c cleanup rebuild num_cores
       in bind (run_callbacks env N (fst (builder env req))) (\<lambda>_.
            (\<lambda>s. case snd (builder env req) of
                    Inl e \<Rightarrow> (Raise e, s)
                  | Inr generated \<Rightarrow> (Return generated, s)))
          (c, advance env (BuilderBuild req) w))"
    unfolding emits_def
  proof (intro allI impI)
    fix c w r c' w'
    let ?req = "the_request env c cleanup rebuild num_cores"
    let ?p = "bind (run_callbacks env N (fst (builder env ?req))) (\<lambda>_.
            (\<lambda>s. case snd (builder env ?req) of
                    Inl e \<Rightarrow> (Raise e, s)
                  | Inr generated \<Rightarrow> (Return generated, s)))"
    assume I: "I c" and run: "(case (c, w) of (c, w) \<Rightarrow>
       let req = the_request env c cleanup rebuild num_cores
       in bind (run_callbacks env N (fst (builder env req))) (\<lambda>_.
            (\<lambda>s. case snd (builder env req) of
                    Inl e \<Rightarrow> (Raise e, s)
                  | Inr generated \<Rightarrow> (Return generated, s)))
          (c, advance env (BuilderBuild req) w)) = (r, c', w')"
    have fin: "emits I Q (\<lambda>s. case snd (builder env ?req) of
                    Inl e \<Rightarrow> (Raise e, s)
                  | Inr generated \<Rightarrow> (Return generated, s))"
      by (auto simp add: emits_def split: sum.splits)
    have "emits I Q ?p"
      by (intro emits_bind emits_run_callbacks fin) (use assms(3) in auto)
    moreover have "?p (c, advance env (BuilderBuild ?req) w) = (r, c', w')"
      using run by (simp add: Let_def)
    ultimately obtain evs where
      "I c'" "trace w' = trace (advance env (BuilderBuild ?req) w) @ evs" "list_all Q evs"
      using I by (blast dest: emitsD)
    then have "I c' \<and> trace w' = trace w @ (BuilderBuild ?req # evs)
         \<and> list_all Q (BuilderBuild ?req # evs)"
      using assms(2) by (simp add: trace_advance)
    then show "I c' \<and> (\<exists>evs. trace w' = trace w @ evs \<and> list_all Q evs)" by blast
  qed
  show ?thesis
    unfolding build_def
    by (intro emits_bind emits_init) (use assms(1) body in auto)
qed

lemma emits_config:
  assumes "\<And>c wif. I c \<Longrightarrow> messenger c = None \<Longrightarrow> get_key env (wallet (cfg c)) = Inr wif
     \<Longrightarrow> I (c\<lparr>messenger := Some (new_messenger c wif)\<rparr>)"
    and "\<And>c d. I c \<Longrightarrow> messenger c \<noteq> None \<Longrightarrow> I (c\<lparr>cfg := d\<rparr>)"
    and "\<And>p d. Q (ConfigSave p d)"
  shows "emits I Q (config env set_wallet set_payout_address)"
proof (rule emitsI)
  fix c w r c' w'
  assume I: "I c" and run: "config env set_wallet set_payout_address (c, w) = (r, c', w')"
  let ?J = "\<lambda>x. I x \<and> messenger x \<noteq> None"
  let ?rest = "bind (update_cfg set_wallet set_payout_address) (\<lambda>config_updated.
          bind (if config_updated then save env else ret ()) (\<lambda>_.
          (\<lambda>(c', w'). (Return (cfg c'), c', w'))))"
  have upd: "emits ?J Q (update_cfg set_wallet set_payout_address)"
    by (rule emitsI) (auto simp add: update_cfg_def Let_def assms(2))
  have sv: "emits ?J Q (save env)"
    by (rule emitsI) (auto simp add: save_def perform_def trace_advance assms(3))
  have fin: "emits ?J Q (\<lambda>(c', w'). (Return (cfg c'), c', w'))"
    by (rule emitsI) auto
  have rest: "emits ?J Q ?rest"
  proof (rule emits_bind[OF upd])
    fix u
    have "emits ?J Q (if u then save env else ret ())"
    proof (cases u)
      case True
      then show ?thesis using sv by simp
    next
      case False
      then show ?thesis using emits_ret[of ?J Q "()"] by simp
    qed
    then show "emits ?J Q (bind (if u then save env else ret ()) (\<lambda>_.
          (\<lambda>(c', w'). (Return (cfg c'), c', w'))))"
      by (rule emits_bind) (rule fin)
  qed
  show "I c' \<and> (\<exists>evs. trace w' = trace w @ evs \<and> list_all Q evs)"
  proof (cases "c' = c \<and> w' = w")
    case True
    then show ?thesis using I by simp
  next
    case False
    with run have run': "bind (init_messenger env) (\<lambda>_. ?rest) (c, w) = (r, c', w')"
      by (auto simp add: config_def split: if_splits)
    obtain r0 c0 w0 where i0: "init_messenger env (c, w) = (r0, c0, w0)"
      by (metis prod_cases3)
    from init_messenger_cases[OF i0] False run' i0
    have r0: "r0 = Return ()" and w0: "w0 = w" and J0: "messenger c0 \<noteq> None"
      by (auto simp add: bind_def)
    have "I c0" using init_messenger_cases[OF i0] I assms(1)[OF I] by auto
    moreover have "?rest (c0, w) = (r, c', w')"
      using run' i0 r0 w0 by (simp add: bind_def)
    ultimately show ?thesis using rest J0 by (blast dest: emitsD)
  qed
qed

lemma try_register_Some:
  assumes "messenger c = Some m"
  shows "try_register env (c, w) =
     ((case reply env (trace w) (Remote m (Register (payout_address (cfg c)))) of
         None \<Rightarrow> Return ()
       | Some AddressAlreadyRegistered \<Rightarrow> Return ()
       | Some err \<Rightarrow> Raise err),
      c, advance env (Remote m (Register (payout_address (cfg c)))) w)"
  using assms
  by (simp add: try_register_def register_Some split: option.splits error.splits)

text \<open>\<^verbatim>\<open>farm\<close> after its first two statements.\<close>

lemma farm_Some:
  assumes "messenger c = Some m"
  shows "farm env fuel (c, w) =
     bind (try_register env) (\<lambda>_.
     bind (build env False False (DEFAULT_SET_HEIGHT_INTERVAL env) (DEFAULT_NUMCORES env)) (\<lambda>_.
     bind (poll env fuel False (DEFAULT_DELAY env) None) (\<lambda>_.
     ret ())))
       (c\<lparr>messenger := Some (m\<lparr>m_retry_limit := farm_retry_limit\<rparr>)\<rparr>, w)"
  using assms
  by (simp add: farm_def bind_def init_messenger_Some set_retry_limit_def)

lemma farm_structure:
  assumes m: "messenger c = Some m"
    and run: "farm env fuel (c, w) = (r, c', w')"
  defines "m1 \<equiv> m\<lparr>m_retry_limit := farm_retry_limit\<rparr>"
  shows "c' = c\<lparr>messenger := Some m1\<rparr> \<and>
     (\<exists>evs_b evs_p. trace w' = trace w @ Remote m1 (Register (payout_address (cfg c))) # evs_b @ evs_p
        \<and> list_all (\<lambda>e. (\<exists>req. e = BuilderBuild req) \<or> (\<exists>h. e = Remote m1 (Height h))) evs_b
        \<and> list_all (\<lambda>e. e = Remote m1 Ping \<or> e = Sleep (DEFAULT_DELAY env)) evs_p)"
proof -
  let ?c1 = "c\<lparr>messenger := Some m1\<rparr>"
  let ?reg = "Remote m1 (Register (payout_address (cfg c)))"
  let ?w1 = "advance env ?reg w"
  let ?I = "\<lambda>x. x = ?c1"
  let ?Qb = "\<lambda>e. (\<exists>req. e = BuilderBuild req) \<or> (\<exists>h. e = Remote m1 (Height h))"
  let ?Qp = "\<lambda>e. e = Remote m1 Ping \<or> e = Sleep (DEFAULT_DELAY env)"
  let ?build = "build env False False (DEFAULT_SET_HEIGHT_INTERVAL env) (DEFAULT_NUMCORES env)"
  let ?poll = "bind (poll env fuel False (DEFAULT_DELAY env) None) (\<lambda>_. ret ())"
  have m1: "messenger ?c1 = Some m1" by simp
  have eb: "emits ?I ?Qb ?build"
    by (rule emits_build) auto
  have ep: "emits ?I ?Qp ?poll"
    by (intro emits_bind emits_ret emits_poll) auto
  have tr: "try_register env (?c1, w) =
     ((case reply env (trace w) ?reg of None \<Rightarrow> Return ()
       | Some AddressAlreadyRegistered \<Rightarrow> Return () | Some err \<Rightarrow> Raise err), ?c1, ?w1)"
    using try_register_Some[OF m1, of env w] by simp
  have run1: "bind (try_register env) (\<lambda>_. bind ?build (\<lambda>_. ?poll)) (?c1, w) = (r, c', w')"
    using run unfolding farm_Some[OF m] m1_def .
  have tw1: "trace ?w1 = trace w @ [?reg]" by (simp add: trace_advance)
  obtain r1 where r1: "try_register env (?c1, w) = (r1, ?c1, ?w1)" using tr by simp
  show ?thesis
  proof (cases r1)
    case (Return u)
    obtain r2 c2 w2 where b: "?build (?c1, ?w1) = (r2, c2, w2)" by (metis prod_cases3)
    from emitsD[OF eb _ b] obtain evs_b where
      2: "c2 = ?c1" "trace w2 = trace ?w1 @ evs_b" "list_all ?Qb evs_b" by blast
    show ?thesis
    proof (cases r2)
      case (Return g)
      with run1 r1 \<open>r1 = Return u\<close> b have p: "?poll (c2, w2) = (r, c', w')"
        by (simp add: bind_def)
      from emitsD[OF ep _ p] 2(1) obtain evs_p where
        3: "c' = ?c1" "trace w' = trace w2 @ evs_p" "list_all ?Qp evs_p" by blast
      have "trace w' = trace w @ ?reg # evs_b @ evs_p" using 3(2) 2(2) tw1 by simp
      then show ?thesis using 3(1,3) 2(3) by blast
    next
      case (Raise e)
      with run1 r1 \<open>r1 = Return u\<close> b have "c' = c2" "w' = w2" by (simp_all add: bind_def)
      then have "c' = ?c1" "trace w' = trace w @ ?reg # evs_b @ []" using 2 tw1 by simp_all
      moreover have "list_all ?Qp []" by simp
      ultimately show ?thesis using 2(3) by blast
    next
      case OutOfFuel
      with run1 r1 \<open>r1 = Return u\<close> b have "c' = c2" "w' = w2" by (simp_all add: bind_def)
      then have "c' = ?c1" "trace w' = trace w @ ?reg # evs_b @ []" using 2 tw1 by simp_all
      moreover have "list_all ?Qp []" by simp
      ultimately show ?thesis using 2(3) by blast
    qed
  next
    case (Raise e)
    with run1 r1 have "c' = ?c1" "w' = ?w1" by (simp_all add: bind_def)
    then have "c' = ?c1" "trace w' = trace w @ ?reg # [] @ []" using tw1 by simp_all
    moreover have "list_all ?Qb []" "list_all ?Qp []" by simp_all
    ultimately show ?thesis by blast
  next
    case OutOfFuel
    with run1 r1 have "c' = ?c1" "w' = ?w1" by (simp_all add: bind_def)
    then have "c' = ?c1" "trace w' = trace w @ ?reg # [] @ []" using tw1 by simp_all
    moreover have "list_all ?Qb []" "list_all ?Qp []" by simp_all
    ultimately show ?thesis by blast
  qed
qed

lemma on_generate_shard_Some:
  assumes "messenger c = Some m" "N \<noteq> 0"
    and "int_of_quotient (max_size c) (SHARD_SIZE env) = Inr q"
  shows "on_generate_shard env h N (c, w) =
     (if h = 1 \<or> h mod N = 0 \<or> h = q
      then ((case reply env (trace w) (Remote m (Height h)) of
               None \<Rightarrow> Return () | Some err \<Rightarrow> Raise err),
            c, advance env (Remote m (Height h)) w)
      else (Return (), c, w))"
  using assms
  by (auto simp add: on_generate_shard_def remote_Some first_def set_height_def is_last_def)

lemma on_generate_shard_raises:
  assumes "N \<noteq> 0" and "int_of_quotient (max_size c) (SHARD_SIZE env) = Inl e"
  shows "on_generate_shard env h N (c, w) = (Raise e, c, w)"
  using assms by (simp add: on_generate_shard_def)

lemma run_callbacks_ok:
  assumes "messenger c = Some m" "N \<noteq> 0"
    and "int_of_quotient (max_size c) (SHARD_SIZE env) = Inr q"
    and "\<forall>tr h. reply env tr (Remote m (Height h)) = None"
  shows "\<exists>w'. run_callbacks env N hs (c, w) = (Return (), c, w')
           \<and> reported (trace w') = reported (trace w)
               @ filter (\<lambda>h. h = 1 \<or> h mod N = 0 \<or> h = q) hs"
proof (induction hs arbitrary: w)
  case Nil
  show ?case by (simp add: ret_def)
next
  case (Cons h hs)
  let ?P = "\<lambda>h. h = 1 \<or> h mod N = 0 \<or> h = q"
  show ?case
  proof (cases "?P h")
    case True
    let ?w1 = "advance env (Remote m (Height h)) w"
    have step: "on_generate_shard env h N (c, w) = (Return (), c, ?w1)"
      using True assms(4) by (simp add: on_generate_shard_Some[OF assms(1-3)])
    from Cons.IH[of ?w1] obtain w' where
      w': "run_callbacks env N hs (c, ?w1) = (Return (), c, w')"
      "reported (trace w') = reported (trace ?w1) @ filter ?P hs"
      by blast
    show ?thesis
      using True w' step by (simp add: bind_def trace_advance reported_append)
  next
    case False
    have step: "on_generate_shard env h N (c, w) = (Return (), c, w)"
      using False by (simp add: on_generate_shard_Some[OF assms(1-3)])
    from Cons.IH[of w] obtain w' where
      w': "run_callbacks env N hs (c, w) = (Return (), c, w')"
      "reported (trace w') = reported (trace w) @ filter ?P hs"
      by blast
    show ?thesis
      using False w' step by (simp add: bind_def)
  qed
qed

lemma strict_upto_filter: "sorted_wrt (<) (filter P [i..j])"
  by (simp add: sorted_wrt_filter strict_sorted_iff)

lemma ceiling_is_floor_iff:
  assumes "0 < (b::int)"
  shows "- ((- a) div b) = a div b \<longleftrightarrow> b dvd a"
  using assms by (auto simp add: zdiv_zminus1_eq_if dvd_eq_mod_eq_0)

lemma fixture_facts:
  "messenger a_client = Some a_messenger"
  "max_size a_client = 10"
  "SHARD_SIZE quiet_env = 1"
  "reply quiet_env = (\<lambda>tr e. None)"
  by (simp_all add: a_client_def fresh_client_def quiet_env_def)

lemma small_quotients:
  "int_of_quotient 10 1 = Inr 10"
  "int_of_quotient 5 2 = Inr 2"
  using int_of_quotient_exact[of 10 1] int_of_quotient_exact[of 5 2] by simp_all

text \<open>
  Claim C1, amended. For a capacity \<open>0 \<le> max_size < 2^53\<close>, a shard size above zero and
  a checkpoint interval other than zero, the callback reports the height it is invoked
  with exactly when that height is 1, a multiple of the interval, or
  \<open>max_size div shard_size\<close>, the quotient rounded down. When \<open>max_size\<close> is a multiple of
  the shard size, that is the last height, the specification's
  \<open>total_height = ceil(max_size / shard_size)\<close>: invoked for the heights
  \<open>1, ..., total_height\<close> in order, with no report raising, the callback reports exactly
  the heights that are 1, a multiple of the interval or \<open>total_height\<close>, in strictly
  increasing order (so each once). For \<open>total_height = 10\<close> and interval 4 these are
  1, 4, 8, 10.
\<close>

theorem checkpoint_policy:
  assumes "messenger c = Some m" and "set_height_interval \<noteq> 0"
    and "0 \<le> max_size c" and "max_size c < 2 ^ 53" and "0 < SHARD_SIZE env"
  shows "(\<forall>h w. \<exists>r w'. on_generate_shard env h set_height_interval (c, w) = (r, c, w')
            \<and> reported (trace w') = reported (trace w)
                 @ (if h = 1 \<or> h mod set_height_interval = 0
                       \<or> h = max_size c div SHARD_SIZE env
                    then [h] else []))
     \<and> (SHARD_SIZE env dvd max_size c
          \<and> total_height = spec_total_height (max_size c) (SHARD_SIZE env)
          \<and> (\<forall>tr h. reply env tr (Remote m (Height h)) = None) \<longrightarrow>
          (\<exists>w'. run_callbacks env set_height_interval [1..total_height] (c, w)
                  = (Return (), c, w')
             \<and> reported (trace w') = reported (trace w)
                 @ filter (\<lambda>h. h = 1 \<or> h mod set_height_interval = 0 \<or> h = total_height)
                     [1..total_height]))
     \<and> sorted_wrt (<)
          (filter (\<lambda>h. h = 1 \<or> h mod set_height_interval = 0 \<or> h = total_height)
             [1..total_height])"
proof (intro conjI allI impI)
  have q: "int_of_quotient (max_size c) (SHARD_SIZE env) = Inr (max_size c div SHARD_SIZE env)"
    using assms(3-5) by (rule int_of_quotient_exact)
  fix h w
  show "\<exists>r w'. on_generate_shard env h set_height_interval (c, w) = (r, c, w')
            \<and> reported (trace w') = reported (trace w)
                 @ (if h = 1 \<or> h mod set_height_interval = 0
                       \<or> h = max_size c div SHARD_SIZE env
                    then [h] else [])"
    by (simp add: on_generate_shard_Some[OF assms(1,2) q] trace_advance reported_append)
next
  assume h: "SHARD_SIZE env dvd max_size c
          \<and> total_height = spec_total_height (max_size c) (SHARD_SIZE env)
          \<and> (\<forall>tr h. reply env tr (Remote m (Height h)) = None)"
  have "spec_total_height (max_size c) (SHARD_SIZE env) = max_size c div SHARD_SIZE env"
    using h ceiling_is_floor_iff[OF assms(5), of "max_size c"]
    by (simp add: spec_total_height_def)
  then have q: "int_of_quotient (max_size c) (SHARD_SIZE env) = Inr total_height"
    using int_of_quotient_exact[OF assms(3-5)] h by simp
  from h have ok: "\<forall>tr h. reply env tr (Remote m (Height h)) = None" by blast
  show "\<exists>w'. run_callbacks env set_height_interval [1..total_height] (c, w)
                  = (Return (), c, w')
             \<and> reported (trace w') = reported (trace w)
                 @ filter (\<lambda>h. h = 1 \<or> h mod set_height_interval = 0 \<or> h = total_height)
                     [1..total_height]"
    by (rule run_callbacks_ok[OF assms(1,2) q ok])
next
  show "sorted_wrt (<)
          (filter (\<lambda>h. h = 1 \<or> h mod set_height_interval = 0 \<or> h = total_height)
             [1..total_height])"
    by (rule strict_upto_filter)
qed

theorem checkpoint_policy_witness:
  "messenger a_client = Some a_messenger
   \<and> max_size a_client = 10 \<and> SHARD_SIZE quiet_env = 1
   \<and> spec_total_height (max_size a_client) (SHARD_SIZE quiet_env) = 10
   \<and> (\<exists>w'. run_callbacks quiet_env 4 [1..10] (a_client, start) = (Return (), a_client, w')
          \<and> reported (trace w') = [1, 4, 8, 10])"
proof -
  have m: "messenger a_client = Some a_messenger" by (rule fixture_facts)
  have n: "(4::int) \<noteq> 0" by simp
  have a: "0 \<le> max_size a_client" "max_size a_client < 2 ^ 53" "0 < SHARD_SIZE quiet_env"
    by (simp_all add: fixture_facts)
  have t: "spec_total_height (max_size a_client) (SHARD_SIZE quiet_env) = 10"
    by (simp add: fixture_facts spec_total_height_def)
  have h: "SHARD_SIZE quiet_env dvd max_size a_client
          \<and> 10 = spec_total_height (max_size a_client) (SHARD_SIZE quiet_env)
          \<and> (\<forall>tr h. reply quiet_env tr (Remote a_messenger (Height h)) = None)"
    using t by (simp add: fixture_facts)
  have f: "filter (\<lambda>h::int. h = 1 \<or> h mod 4 = 0 \<or> h = 10) [1..10] = [1, 4, 8, 10]"
    by (simp add: upto_rec1)
  from checkpoint_policy[OF m n a, of 10 start, THEN conjunct2, THEN conjunct1, rule_format, OF h]
  have "\<exists>w'. run_callbacks quiet_env 4 [1..10] (a_client, start) = (Return (), a_client, w')
          \<and> reported (trace w') = reported (trace start)
                 @ filter (\<lambda>h. h = 1 \<or> h mod 4 = 0 \<or> h = 10) [1..10]" .
  then show ?thesis
    using m t unfolding f by (simp add: start_def fixture_facts)
qed

text \<open>
  A capacity of 5 bytes in shards of 2 bytes, interval 4: the specification's total
  height is 3; the callback invoked for the heights 1, 2, 3 in order reports 1 and 2,
  and not the last height 3.
\<close>

theorem checkpoint_last_height_counterexample:
  "spec_total_height (max_size (a_client\<lparr>max_size := 5\<rparr>))
       (SHARD_SIZE (quiet_env\<lparr>SHARD_SIZE := 2\<rparr>)) = 3
   \<and> fst (run_callbacks (quiet_env\<lparr>SHARD_SIZE := 2\<rparr>) 4 [1..3]
             (a_client\<lparr>max_size := 5\<rparr>, start)) = Return ()
   \<and> reported (trace (snd (snd (run_callbacks (quiet_env\<lparr>SHARD_SIZE := 2\<rparr>) 4 [1..3]
             (a_client\<lparr>max_size := 5\<rparr>, start))))) = [1, 2]"
  by (simp add: spec_total_height_def upto_rec1 bind_def ret_def on_generate_shard_def
      first_def set_height_def is_last_def small_quotients remote_def perform_def advance_def
      quiet_env_def a_client_def fresh_client_def start_def)

text \<open>
  Claim C2, amended. For a capacity \<open>0 \<le> max_size < 2^53\<close> and a shard size above zero,
  the ``last'' condition of the callback holds exactly at the height
  \<open>max_size div shard_size\<close>, the quotient rounded down; that height is the
  specification's \<open>ceil(max_size / shard_size)\<close> exactly when \<open>max_size\<close> is a multiple of
  the shard size. The callback invoked at the height \<open>max_size div shard_size\<close> reports
  it.
\<close>

theorem last_height_is_floor:
  assumes "0 \<le> max_size c" and "max_size c < 2 ^ 53" and "0 < SHARD_SIZE env"
  shows "(\<forall>h. is_last env c h \<longleftrightarrow> h = max_size c div SHARD_SIZE env)
     \<and> (is_last env c (spec_total_height (max_size c) (SHARD_SIZE env))
          \<longleftrightarrow> SHARD_SIZE env dvd max_size c)
     \<and> (\<forall>m w. messenger c = Some m \<and> set_height_interval \<noteq> 0 \<longrightarrow>
          (\<exists>r w'. on_generate_shard env (max_size c div SHARD_SIZE env) set_height_interval (c, w)
                     = (r, c, w')
             \<and> reported (trace w')
                = reported (trace w) @ [max_size c div SHARD_SIZE env]))"
proof (intro conjI allI impI)
  have q: "int_of_quotient (max_size c) (SHARD_SIZE env) = Inr (max_size c div SHARD_SIZE env)"
    using assms by (rule int_of_quotient_exact)
  fix h
  show "is_last env c h \<longleftrightarrow> h = max_size c div SHARD_SIZE env"
    by (auto simp add: is_last_def q)
  show "is_last env c (spec_total_height (max_size c) (SHARD_SIZE env))
          \<longleftrightarrow> SHARD_SIZE env dvd max_size c"
    using ceiling_is_floor_iff[OF assms(3), of "max_size c"]
    by (auto simp add: is_last_def q spec_total_height_def)
  fix m w
  assume h: "messenger c = Some m \<and> set_height_interval \<noteq> 0"
  then have m: "messenger c = Some m" and n: "set_height_interval \<noteq> 0" by simp_all
  show "\<exists>r w'. on_generate_shard env (max_size c div SHARD_SIZE env) set_height_interval (c, w)
                     = (r, c, w')
             \<and> reported (trace w')
                = reported (trace w) @ [max_size c div SHARD_SIZE env]"
    by (simp add: on_generate_shard_Some[OF m n q] trace_advance reported_append)
qed

theorem last_height_is_floor_witness:
  "0 \<le> max_size (a_client\<lparr>max_size := 5\<rparr>) \<and> max_size (a_client\<lparr>max_size := 5\<rparr>) < 2 ^ 53
   \<and> 0 < SHARD_SIZE (quiet_env\<lparr>SHARD_SIZE := 2\<rparr>)
   \<and> is_last (quiet_env\<lparr>SHARD_SIZE := 2\<rparr>) (a_client\<lparr>max_size := 5\<rparr>) 2
   \<and> \<not> is_last (quiet_env\<lparr>SHARD_SIZE := 2\<rparr>) (a_client\<lparr>max_size := 5\<rparr>) 3"
proof -
  have a: "0 \<le> max_size (a_client\<lparr>max_size := 5\<rparr>)" by simp
  have a': "max_size (a_client\<lparr>max_size := 5\<rparr>) < 2 ^ 53" by simp
  have b: "0 < SHARD_SIZE (quiet_env\<lparr>SHARD_SIZE := 2\<rparr>)" by simp
  from last_height_is_floor[OF a a' b, THEN conjunct1]
  have "\<forall>h. is_last (quiet_env\<lparr>SHARD_SIZE := 2\<rparr>) (a_client\<lparr>max_size := 5\<rparr>) h \<longleftrightarrow> h = 2"
    by simp
  then show ?thesis using a a' b by simp
qed

text \<open>
  A capacity of 5 bytes in shards of 2 bytes: the specification's total height is 3, and
  the callback at height 3, with interval 2, does not hold it for the last one and
  reports nothing.
\<close>

theorem last_height_ceiling_counterexample:
  "spec_total_height (max_size (a_client\<lparr>max_size := 5\<rparr>)) (SHARD_SIZE (quiet_env\<lparr>SHARD_SIZE := 2\<rparr>)) = 3
   \<and> \<not> is_last (quiet_env\<lparr>SHARD_SIZE := 2\<rparr>) (a_client\<lparr>max_size := 5\<rparr>) 3
   \<and> on_generate_shard (quiet_env\<lparr>SHARD_SIZE := 2\<rparr>) 3 2 (a_client\<lparr>max_size := 5\<rparr>, start)
       = (Return (), a_client\<lparr>max_size := 5\<rparr>, start)"
  by (simp add: spec_total_height_def is_last_def small_quotients on_generate_shard_def
      first_def set_height_def)

lemma farm_absorbed:
  assumes "init_messenger env (c, w) = (Return (), c0, w0)"
  shows "farm env fuel (c, w) = farm env fuel (c0, w)"
  unfolding farm_def by (rule init_absorbed[OF assms])

lemma register_absorbed:
  assumes "init_messenger env (c, w) = (Return (), c0, w0)"
  shows "register env (c, w) = register env (c0, w)"
  unfolding register_def by (rule init_absorbed[OF assms])

lemma init_keeps_cfg:
  assumes "init_messenger env (c, w) = (r, c0, w0)"
  shows "cfg c0 = cfg c \<and> retry_limit c0 = retry_limit c \<and> retry_delay c0 = retry_delay c
         \<and> max_size c0 = max_size c"
  using assms by (auto simp add: init_messenger_def split: option.splits sum.splits)

lemma no_register_among:
  assumes "list_all Q evs" and "\<And>e. Q e \<Longrightarrow> \<not> is_register e"
  shows "filter is_register evs = []"
  using assms by (induction evs) auto

lemma farm_registers_once:
  assumes m: "messenger c = Some m"
    and run: "farm env fuel (c, w) = (r, c', w')"
  shows "length (filter is_register (trace w')) = Suc (length (filter is_register (trace w)))"
proof -
  let ?m1 = "m\<lparr>m_retry_limit := farm_retry_limit\<rparr>"
  from farm_structure[OF m run] obtain evs_b evs_p where
    tr: "trace w' = trace w @ Remote ?m1 (Register (payout_address (cfg c))) # evs_b @ evs_p"
    and b: "list_all (\<lambda>e. (\<exists>req. e = BuilderBuild req) \<or> (\<exists>h. e = Remote ?m1 (Height h))) evs_b"
    and p: "list_all (\<lambda>e. e = Remote ?m1 Ping \<or> e = Sleep (DEFAULT_DELAY env)) evs_p"
    by blast
  have "filter is_register evs_b = []"
    by (rule no_register_among[OF b]) auto
  moreover have "filter is_register evs_p = []"
    by (rule no_register_among[OF p]) auto
  ultimately show ?thesis unfolding tr by simp
qed

text \<open>
  Claim C3. The server answers every registration of the client's payout address with
  ``already registered''. Then a direct \<^verbatim>\<open>register()\<close> raises
  \<^verbatim>\<open>AddressAlreadyRegistered\<close> to its caller after the one call, and \<^verbatim>\<open>farm()\<close>, after
  its one call, goes on with \<^verbatim>\<open>build\<close> and then \<^verbatim>\<open>poll\<close>; neither of them registers a
  second time. (The messenger can be initialised: \<open>c0\<close> is the client after
  \<^verbatim>\<open>_init_messenger\<close>.)
\<close>

theorem already_registered:
  assumes init: "init_messenger env (c, w) = (Return (), c0, w)"
    and msg: "messenger c0 = Some m"
    and already: "\<forall>tr m'. reply env tr (Remote m' (Register (payout_address (cfg c))))
                    = Some AddressAlreadyRegistered"
  shows "register env (c, w)
       = (Raise AddressAlreadyRegistered, c0,
          advance env (Remote m (Register (payout_address (cfg c)))) w)
     \<and> length (filter is_register
                 (trace (advance env (Remote m (Register (payout_address (cfg c)))) w)))
        = Suc (length (filter is_register (trace w)))
     \<and> farm env fuel (c, w)
       = bind (build env False False (DEFAULT_SET_HEIGHT_INTERVAL env) (DEFAULT_NUMCORES env))
           (\<lambda>_. bind (poll env fuel False (DEFAULT_DELAY env) None) (\<lambda>_. ret ()))
           (c0\<lparr>messenger := Some (m\<lparr>m_retry_limit := farm_retry_limit\<rparr>)\<rparr>,
            advance env (Remote (m\<lparr>m_retry_limit := farm_retry_limit\<rparr>)
                           (Register (payout_address (cfg c)))) w)
     \<and> (\<forall>r c' w'. farm env fuel (c, w) = (r, c', w') \<longrightarrow>
          length (filter is_register (trace w')) = Suc (length (filter is_register (trace w))))"
proof (intro conjI allI impI)
  have cfg0: "cfg c0 = cfg c" using init_keeps_cfg[OF init] by simp
  show "register env (c, w)
       = (Raise AddressAlreadyRegistered, c0,
          advance env (Remote m (Register (payout_address (cfg c)))) w)"
    using already by (simp add: register_absorbed[OF init] register_Some[OF msg] cfg0)
  show "length (filter is_register
                 (trace (advance env (Remote m (Register (payout_address (cfg c)))) w)))
        = Suc (length (filter is_register (trace w)))"
    by (simp add: trace_advance)
  let ?m1 = "m\<lparr>m_retry_limit := farm_retry_limit\<rparr>"
  let ?c1 = "c0\<lparr>messenger := Some ?m1\<rparr>"
  have m1: "messenger ?c1 = Some ?m1" by simp
  have "try_register env (?c1, w)
      = (Return (), ?c1, advance env (Remote ?m1 (Register (payout_address (cfg c)))) w)"
    using already by (simp add: try_register_Some[OF m1] cfg0)
  then show "farm env fuel (c, w)
       = bind (build env False False (DEFAULT_SET_HEIGHT_INTERVAL env) (DEFAULT_NUMCORES env))
           (\<lambda>_. bind (poll env fuel False (DEFAULT_DELAY env) None) (\<lambda>_. ret ()))
           (?c1, advance env (Remote ?m1 (Register (payout_address (cfg c)))) w)"
    by (simp add: farm_absorbed[OF init] farm_Some[OF msg] bind_def)
next
  fix r c' w'
  assume "farm env fuel (c, w) = (r, c', w')"
  then have "farm env fuel (c0, w) = (r, c', w')" by (simp add: farm_absorbed[OF init])
  from farm_registers_once[OF msg this]
  show "length (filter is_register (trace w')) = Suc (length (filter is_register (trace w)))" .
qed

lemmas run_defs =
  bind_def ret_def init_messenger_def new_messenger_def remote_def perform_def advance_def
  duration_def sleep_def register_def ping_def poll_def poll_loop.simps build_def
  the_request_def on_generate_shard_def first_def set_height_def is_last_def
  small_quotients try_register_def set_retry_limit_def farm_def Let_def second_def
  stop_time_of_def datetime_max_def

lemmas fixture_defs =
  quiet_env_def fresh_client_def a_client_def a_messenger_def start_def

theorem already_registered_witness:
  "fst (register (quiet_env\<lparr>reply := \<lambda>tr e. if is_register e then Some AddressAlreadyRegistered else None\<rparr>)
         (fresh_client, start)) = Raise AddressAlreadyRegistered
   \<and> fst (farm (quiet_env\<lparr>reply := \<lambda>tr e. if is_register e then Some AddressAlreadyRegistered else None\<rparr>)
         (Suc 0) (fresh_client, start)) = OutOfFuel
   \<and> map farm_phase (trace (snd (snd
        (farm (quiet_env\<lparr>reply := \<lambda>tr e. if is_register e then Some AddressAlreadyRegistered else None\<rparr>)
         (Suc 0) (fresh_client, start))))) = [0, 1, 1, 1, 1, 1, 2, 2]"
proof -
  let ?env = "quiet_env\<lparr>reply := \<lambda>tr e. if is_register e then Some AddressAlreadyRegistered else None\<rparr>"
  have init: "init_messenger ?env (fresh_client, start) = (Return (), a_client, start)"
    by (simp add: init_messenger_def new_messenger_def fixture_defs)
  have msg: "messenger a_client = Some a_messenger"
    by (simp add: a_client_def)
  have already: "\<forall>tr m'. reply ?env tr (Remote m' (Register (payout_address (cfg fresh_client))))
                    = Some AddressAlreadyRegistered"
    by simp
  note T = already_registered[OF init msg already, of "Suc 0"]
  have 1: "fst (register ?env (fresh_client, start)) = Raise AddressAlreadyRegistered"
    using T[THEN conjunct1] by simp
  have 3: "farm ?env (Suc 0) (fresh_client, start)
       = bind (build ?env False False (DEFAULT_SET_HEIGHT_INTERVAL ?env) (DEFAULT_NUMCORES ?env))
           (\<lambda>_. bind (poll ?env (Suc 0) False (DEFAULT_DELAY ?env) None) (\<lambda>_. ret ()))
           (a_client\<lparr>messenger := Some (a_messenger\<lparr>m_retry_limit := farm_retry_limit\<rparr>)\<rparr>,
            advance ?env (Remote (a_messenger\<lparr>m_retry_limit := farm_retry_limit\<rparr>)
                           (Register (payout_address (cfg fresh_client)))) start)"
    using T[THEN conjunct2, THEN conjunct2, THEN conjunct1] .
  show ?thesis
    unfolding 3 using 1
    by (simp add: run_defs fixture_defs upto_rec1)
qed

lemma sorted_all_equal:
  assumes "\<forall>x\<in>set xs. x = (k::nat)"
  shows "sorted xs"
  using assms by (induction xs) auto

lemma emits_run_op:
  assumes "\<And>c wif. I c \<Longrightarrow> messenger c = None \<Longrightarrow> get_key env (wallet (cfg c)) = Inr wif
     \<Longrightarrow> I (c\<lparr>messenger := Some (new_messenger c wif)\<rparr>)"
    and "\<And>c d. I c \<Longrightarrow> messenger c \<noteq> None \<Longrightarrow> I (c\<lparr>cfg := d\<rparr>)"
    and "\<And>c m r. I c \<Longrightarrow> messenger c = Some m \<Longrightarrow> Q (Remote m r)"
    and "\<And>e. carried e = None \<Longrightarrow> Q e"
    and "op \<noteq> OpFarm"
  shows "emits I Q (run_op env fuel op)"
proof (cases op)
  case OpRegister
  have "emits I Q (register env)"
    by (rule emits_register) (use assms(1,3) in auto)
  then show ?thesis using OpRegister by (simp add: emits_discard)
next
  case (OpConfig sw sp)
  have "emits I Q (config env sw sp)"
  proof (rule emits_config)
    show "Q (ConfigSave p d)" for p d by (rule assms(4)) simp
  qed (use assms(1,2) in auto)
  then show ?thesis using OpConfig by (simp add: emits_discard)
next
  case OpPing
  have "emits I Q (ping env)"
    by (rule emits_ping) (use assms(1,3) in auto)
  then show ?thesis using OpPing by (simp add: emits_discard)
next
  case (OpPoll ra d l)
  have "emits I Q (poll env fuel ra d l)"
  proof (rule emits_poll)
    show "Q (Sleep d)" by (rule assms(4)) simp
  qed (use assms(1,3) in auto)
  then show ?thesis using OpPoll by (simp add: emits_discard)
next
  case (OpBuild cl rb n nc)
  have "emits I Q (build env cl rb n nc)"
  proof (rule emits_build)
    show "Q (BuilderBuild req)" for req by (rule assms(4)) simp
  qed (use assms(1,3) in auto)
  then show ?thesis using OpBuild by (simp add: emits_discard)
next
  case OpFarm
  then show ?thesis using assms(5) by simp
qed

lemma build_ok:
  assumes m: "messenger c = Some m" and "N \<noteq> 0"
    and "int_of_quotient (max_size c) (SHARD_SIZE env) = Inr q"
    and ok: "\<forall>tr h. reply env tr (Remote m (Height h)) = None"
    and g: "snd (builder env (the_request env c cleanup rebuild num_cores)) = Inr g"
  shows "\<exists>w' evs. build env cleanup rebuild N num_cores (c, w) = (Return g, c, w')
     \<and> trace w' = trace w @ BuilderBuild (the_request env c cleanup rebuild num_cores) # evs
     \<and> list_all (\<lambda>e. \<exists>h. e = Remote m (Height h)) evs"
proof -
  let ?req = "the_request env c cleanup rebuild num_cores"
  let ?w1 = "advance env (BuilderBuild ?req) w"
  from run_callbacks_ok[OF m assms(2,3) ok, of "fst (builder env ?req)" ?w1]
  obtain w' where
    run: "run_callbacks env N (fst (builder env ?req)) (c, ?w1) = (Return (), c, w')" by blast
  have "emits (\<lambda>x. x = c) (\<lambda>e. \<exists>h. e = Remote m (Height h))
          (run_callbacks env N (fst (builder env ?req)))"
    by (rule emits_run_callbacks) (use m in auto)
  from emitsD[OF this _ run] obtain evs where
    evs: "trace w' = trace ?w1 @ evs" "list_all (\<lambda>e. \<exists>h. e = Remote m (Height h)) evs"
    by blast
  have "build env cleanup rebuild N num_cores (c, w) = (Return g, c, w')"
    using run g m by (simp add: build_def bind_def init_messenger_Some Let_def)
  moreover have "trace w' = trace w @ BuilderBuild ?req # evs"
    using evs(1) by (simp add: trace_advance)
  ultimately show ?thesis using evs(2) by blast
qed

lemma farm_trace:
  assumes run: "farm env fuel (c, w) = (r, c', w')"
  shows "\<exists>evs. trace w' = trace w @ evs
     \<and> (\<forall>e\<in>set evs. \<forall>m. carried e = Some m \<longrightarrow> m_retry_limit m = farm_retry_limit)
     \<and> sorted (map farm_phase evs)
     \<and> length (filter is_register evs) \<le> 1"
proof -
  obtain r0 c0 w0 where i0: "init_messenger env (c, w) = (r0, c0, w0)"
    by (metis prod_cases3)
  show ?thesis
  proof (cases "\<exists>m. r0 = Return () \<and> messenger c0 = Some m")
    case False
    with init_messenger_cases[OF i0] obtain e where "r0 = Raise e" "c0 = c" "w0 = w"
      by auto
    with run i0 have "w' = w" by (simp add: farm_def bind_def)
    then show ?thesis by simp
  next
    case True
    then obtain m where r0: "r0 = Return ()" and m: "messenger c0 = Some m" by blast
    let ?m1 = "m\<lparr>m_retry_limit := farm_retry_limit\<rparr>"
    let ?reg = "Remote ?m1 (Register (payout_address (cfg c0)))"
    have "farm env fuel (c0, w) = (r, c', w')"
      using run farm_absorbed[OF i0[unfolded r0]] by simp
    from farm_structure[OF m this] obtain evs_b evs_p where
      tr: "trace w' = trace w @ ?reg # evs_b @ evs_p"
      and b: "list_all (\<lambda>e. (\<exists>req. e = BuilderBuild req) \<or> (\<exists>h. e = Remote ?m1 (Height h))) evs_b"
      and p: "list_all (\<lambda>e. e = Remote ?m1 Ping \<or> e = Sleep (DEFAULT_DELAY env)) evs_p"
      by blast
    have pb: "\<forall>x\<in>set (map farm_phase evs_b). x = 1"
      using b by (auto simp add: list_all_iff)
    have pp: "\<forall>x\<in>set (map farm_phase evs_p). x = 2"
      using p by (auto simp add: list_all_iff)
    have "sorted (map farm_phase evs_b @ map farm_phase evs_p)"
      using sorted_all_equal[OF pb] sorted_all_equal[OF pp] pb pp
      by (simp add: sorted_append)
    then have s: "sorted (map farm_phase (?reg # evs_b @ evs_p))" by simp
    have lb: "m_retry_limit m' = farm_retry_limit"
      if "e \<in> set evs_b" "carried e = Some m'" for e m'
    proof -
      from b that(1) have "(\<exists>req. e = BuilderBuild req) \<or> (\<exists>h. e = Remote ?m1 (Height h))"
        by (simp add: list_all_iff)
      then show ?thesis using that(2) by auto
    qed
    have lp: "m_retry_limit m' = farm_retry_limit"
      if "e \<in> set evs_p" "carried e = Some m'" for e m'
    proof -
      from p that(1) have "e = Remote ?m1 Ping \<or> e = Sleep (DEFAULT_DELAY env)"
        by (simp add: list_all_iff)
      then show ?thesis using that(2) by auto
    qed
    have l: "\<forall>e\<in>set (?reg # evs_b @ evs_p). \<forall>m'. carried e = Some m'
                \<longrightarrow> m_retry_limit m' = farm_retry_limit"
      using lb lp by auto
    have "filter is_register evs_b = []" by (rule no_register_among[OF b]) auto
    moreover have "filter is_register evs_p = []" by (rule no_register_among[OF p]) auto
    ultimately have n: "length (filter is_register (?reg # evs_b @ evs_p)) \<le> 1" by simp
    show ?thesis using tr s l n by blast
  qed
qed

lemma farm_runs:
  assumes init: "init_messenger env (c, w) = (Return (), c0, w)"
    and msg: "messenger c0 = Some m"
    and ok: "\<forall>tr e. reply env tr e = None
               \<or> (is_register e \<and> reply env tr e = Some AddressAlreadyRegistered)"
    and bld: "\<forall>req. \<exists>g. snd (builder env req) = Inr g"
    and nz: "DEFAULT_SET_HEIGHT_INTERVAL env \<noteq> 0"
    and quo: "int_of_quotient (max_size c) (SHARD_SIZE env) = Inr q"
  defines "m1 \<equiv> m\<lparr>m_retry_limit := farm_retry_limit\<rparr>"
  defines "c1 \<equiv> c0\<lparr>messenger := Some m1\<rparr>"
  shows "\<exists>w' evs. farm env fuel (c, w) = (OutOfFuel, c1, w')
     \<and> trace w' = trace w @ Remote m1 (Register (payout_address (cfg c)))
          # BuilderBuild (the_request env c1 False False (DEFAULT_NUMCORES env)) # evs
     \<and> filter is_register evs = []
     \<and> length (filter is_ping evs) = fuel"
proof -
  let ?reg = "Remote m1 (Register (payout_address (cfg c)))"
  let ?req = "the_request env c1 False False (DEFAULT_NUMCORES env)"
  let ?w1 = "advance env ?reg w"
  let ?build = "build env False False (DEFAULT_SET_HEIGHT_INTERVAL env) (DEFAULT_NUMCORES env)"
  have cfg0: "cfg c0 = cfg c" using init_keeps_cfg[OF init] by simp
  have m1: "messenger c1 = Some m1" by (simp add: c1_def)
  have cfg1: "cfg c1 = cfg c" by (simp add: c1_def cfg0)
  have unf: "farm env fuel (c, w) =
     bind (try_register env) (\<lambda>_. bind ?build (\<lambda>_.
       bind (poll env fuel False (DEFAULT_DELAY env) None) (\<lambda>_. ret ()))) (c1, w)"
    unfolding c1_def m1_def by (simp add: farm_absorbed[OF init] farm_Some[OF msg])
  have "reply env (trace w) ?reg = None \<or> reply env (trace w) ?reg = Some AddressAlreadyRegistered"
    using ok by blast
  then have t: "try_register env (c1, w) = (Return (), c1, ?w1)"
    by (auto simp add: try_register_Some[OF m1] cfg1)
  have hok: "\<forall>tr h. reply env tr (Remote m1 (Height h)) = None"
  proof (intro allI)
    fix tr h
    from ok have "reply env tr (Remote m1 (Height h)) = None
        \<or> is_register (Remote m1 (Height h))" by blast
    then show "reply env tr (Remote m1 (Height h)) = None" by simp
  qed
  have pok: "\<forall>tr. reply env tr (Remote m1 Ping) = None"
  proof (intro allI)
    fix tr
    from ok have "reply env tr (Remote m1 Ping) = None \<or> is_register (Remote m1 Ping)" by blast
    then show "reply env tr (Remote m1 Ping) = None" by simp
  qed
  from bld obtain g where g: "snd (builder env ?req) = Inr g" by blast
  have quo1: "int_of_quotient (max_size c1) (SHARD_SIZE env) = Inr q"
    using quo init_keeps_cfg[OF init] by (simp add: c1_def)
  from build_ok[OF m1 nz quo1 hok g, of ?w1] obtain w2 hevs where
    b: "?build (c1, ?w1) = (Return g, c1, w2)"
    and tw2: "trace w2 = trace ?w1 @ BuilderBuild ?req # hevs"
    and hevs: "list_all (\<lambda>e. \<exists>h. e = Remote m1 (Height h)) hevs"
    by blast
  from poll_loop_None_runs[OF m1 pok, of fuel "DEFAULT_DELAY env" w2] obtain w3 where
    p: "poll_loop env fuel None (DEFAULT_DELAY env) (c1, w2) = (OutOfFuel, c1, w3)"
    and cnt: "length (filter is_ping (trace w3)) = length (filter is_ping (trace w2)) + fuel"
    by blast
  have "emits (\<lambda>x. x = c1) (\<lambda>e. e = Remote m1 Ping \<or> e = Sleep (DEFAULT_DELAY env))
          (poll_loop env fuel None (DEFAULT_DELAY env))"
    by (rule emits_poll_loop) (use m1 in auto)
  from emitsD[OF this _ p] obtain pevs where
    tw3: "trace w3 = trace w2 @ pevs"
    and pevs: "list_all (\<lambda>e. e = Remote m1 Ping \<or> e = Sleep (DEFAULT_DELAY env)) pevs"
    by blast
  have res: "farm env fuel (c, w) = (OutOfFuel, c1, w3)"
    unfolding unf using t b p by (simp add: bind_def poll_unlimited ret_def)
  have tr: "trace w3 = trace w @ ?reg # BuilderBuild ?req # (hevs @ pevs)"
    using tw3 tw2 by (simp add: trace_advance)
  have "filter is_register hevs = []"
    by (rule no_register_among[OF hevs]) auto
  moreover have "filter is_register pevs = []"
    by (rule no_register_among[OF pevs]) auto
  ultimately have nr: "filter is_register (hevs @ pevs) = []" by simp
  have "filter is_ping hevs = []"
    using hevs by (induction hevs) auto
  moreover have "length (filter is_ping pevs) = fuel"
    using cnt unfolding tw3 by simp
  ultimately have np: "length (filter is_ping (hevs @ pevs)) = fuel" by simp
  show ?thesis using res tr nr np by blast
qed

lemma standalone_limit:
  assumes "messenger c = None" and "op \<noteq> OpFarm"
    and run: "run_op env fuel op (c, w) = (r, c', w')"
  shows "\<exists>evs. trace w' = trace w @ evs
     \<and> (\<forall>e\<in>set evs. \<forall>m. carried e = Some m \<longrightarrow> m_retry_limit m = retry_limit c)"
proof -
  let ?L = "retry_limit c"
  let ?I = "\<lambda>x. retry_limit x = ?L \<and> (\<forall>m. messenger x = Some m \<longrightarrow> m_retry_limit m = ?L)"
  let ?Q = "\<lambda>e. \<forall>m. carried e = Some m \<longrightarrow> m_retry_limit m = ?L"
  have "emits ?I ?Q (run_op env fuel op)"
    by (rule emits_run_op) (use assms(2) in \<open>auto simp add: new_messenger_def\<close>)
  moreover have "?I c" using assms(1) by simp
  ultimately obtain evs where "trace w' = trace w @ evs" "list_all ?Q evs"
    using run by (blast dest: emitsD)
  then show ?thesis by (auto simp add: list_all_iff)
qed

text \<open>
  Claim C4. \<^verbatim>\<open>farm()\<close> writes the retry limit
  \<open>99999999999999999999999999999999999999 = 10^38 - 1\<close>. Whatever it then does, every
  remote call it makes goes through a messenger with that retry limit, its events come
  in the order registering, building, polling, and it registers at most once. When the
  messenger can be initialised, \<^verbatim>\<open>farm()\<close> is: write the limit, then \<^verbatim>\<open>register\<close>
  (absorbing ``already registered''), \<^verbatim>\<open>build\<close>, \<^verbatim>\<open>poll\<close>; the limit written is not below
  the messenger's own unless that was above \<open>10^38 - 1\<close> already; and when no call raises
  anything else and the builder returns, it registers, starts the build and then pings
  for as long as it is run. Each other operation, run on a client as constructed, makes
  its remote calls under the retry limit given at construction.
\<close>

theorem farm_order_and_retry_limit:
  "farm_retry_limit = 99999999999999999999999999999999999999
   \<and> farm_retry_limit = 10 ^ 38 - 1
   \<and> (\<forall>r c' w'. farm env fuel (c, w) = (r, c', w') \<longrightarrow>
      (\<exists>evs. trace w' = trace w @ evs
         \<and> (\<forall>e\<in>set evs. \<forall>m. carried e = Some m
               \<longrightarrow> m_retry_limit m = 99999999999999999999999999999999999999)
         \<and> sorted (map farm_phase evs)
         \<and> length (filter is_register evs) \<le> 1))
   \<and> (\<forall>c0 m. init_messenger env (c, w) = (Return (), c0, w) \<and> messenger c0 = Some m \<longrightarrow>
        farm env fuel (c, w)
          = bind (try_register env) (\<lambda>_.
            bind (build env False False (DEFAULT_SET_HEIGHT_INTERVAL env) (DEFAULT_NUMCORES env)) (\<lambda>_.
            bind (poll env fuel False (DEFAULT_DELAY env) None) (\<lambda>_. ret ())))
              (c0\<lparr>messenger := Some (m\<lparr>m_retry_limit := farm_retry_limit\<rparr>)\<rparr>, w)
        \<and> (m_retry_limit m \<le> 10 ^ 38 - 1 \<longrightarrow>
             m_retry_limit m \<le> m_retry_limit (m\<lparr>m_retry_limit := farm_retry_limit\<rparr>))
        \<and> ((\<forall>tr e. reply env tr e = None
                 \<or> (is_register e \<and> reply env tr e = Some AddressAlreadyRegistered))
             \<and> (\<forall>req. \<exists>g. snd (builder env req) = Inr g)
             \<and> DEFAULT_SET_HEIGHT_INTERVAL env \<noteq> 0
             \<and> (\<exists>q. int_of_quotient (max_size c) (SHARD_SIZE env) = Inr q) \<longrightarrow>
            (\<exists>w' evs. farm env fuel (c, w)
                  = (OutOfFuel, c0\<lparr>messenger := Some (m\<lparr>m_retry_limit := farm_retry_limit\<rparr>)\<rparr>, w')
               \<and> trace w' = trace w
                    @ Remote (m\<lparr>m_retry_limit := farm_retry_limit\<rparr>)
                        (Register (payout_address (cfg c)))
                    # BuilderBuild
                        (the_request env
                           (c0\<lparr>messenger := Some (m\<lparr>m_retry_limit := farm_retry_limit\<rparr>)\<rparr>)
                           False False (DEFAULT_NUMCORES env))
                    # evs
               \<and> filter is_register evs = []
               \<and> length (filter is_ping evs) = fuel)))
   \<and> (\<forall>op r c' w'. messenger c = None \<and> op \<noteq> OpFarm
          \<and> run_op env fuel op (c, w) = (r, c', w') \<longrightarrow>
        (\<exists>evs. trace w' = trace w @ evs
           \<and> (\<forall>e\<in>set evs. \<forall>m. carried e = Some m \<longrightarrow> m_retry_limit m = retry_limit c)))"
proof (intro conjI allI impI)
  show "farm_retry_limit = 99999999999999999999999999999999999999"
    by (simp add: farm_retry_limit_def)
  show "farm_retry_limit = 10 ^ 38 - 1"
    by (simp add: farm_retry_limit_def)
next
  fix r c' w'
  assume "farm env fuel (c, w) = (r, c', w')"
  from farm_trace[OF this]
  show "\<exists>evs. trace w' = trace w @ evs
         \<and> (\<forall>e\<in>set evs. \<forall>m. carried e = Some m
               \<longrightarrow> m_retry_limit m = 99999999999999999999999999999999999999)
         \<and> sorted (map farm_phase evs)
         \<and> length (filter is_register evs) \<le> 1"
    by (simp add: farm_retry_limit_def)
next
  fix c0 m
  assume h: "init_messenger env (c, w) = (Return (), c0, w) \<and> messenger c0 = Some m"
  then have init: "init_messenger env (c, w) = (Return (), c0, w)"
    and msg: "messenger c0 = Some m" by simp_all
  show "farm env fuel (c, w)
          = bind (try_register env) (\<lambda>_.
            bind (build env False False (DEFAULT_SET_HEIGHT_INTERVAL env) (DEFAULT_NUMCORES env)) (\<lambda>_.
            bind (poll env fuel False (DEFAULT_DELAY env) None) (\<lambda>_. ret ())))
              (c0\<lparr>messenger := Some (m\<lparr>m_retry_limit := farm_retry_limit\<rparr>)\<rparr>, w)"
    by (simp add: farm_absorbed[OF init] farm_Some[OF msg])
  {
    assume "m_retry_limit m \<le> 10 ^ 38 - 1"
    then show "m_retry_limit m \<le> m_retry_limit (m\<lparr>m_retry_limit := farm_retry_limit\<rparr>)"
      by (simp add: farm_retry_limit_def)
  }
  assume a: "(\<forall>tr e. reply env tr e = None
                 \<or> (is_register e \<and> reply env tr e = Some AddressAlreadyRegistered))
             \<and> (\<forall>req. \<exists>g. snd (builder env req) = Inr g)
             \<and> DEFAULT_SET_HEIGHT_INTERVAL env \<noteq> 0
             \<and> (\<exists>q. int_of_quotient (max_size c) (SHARD_SIZE env) = Inr q)"
  then obtain q where quo: "int_of_quotient (max_size c) (SHARD_SIZE env) = Inr q" by blast
  from a have ok: "\<forall>tr e. reply env tr e = None
                 \<or> (is_register e \<and> reply env tr e = Some AddressAlreadyRegistered)"
    and bld: "\<forall>req. \<exists>g. snd (builder env req) = Inr g"
    and nz: "DEFAULT_SET_HEIGHT_INTERVAL env \<noteq> 0" by blast+
  show "\<exists>w' evs. farm env fuel (c, w)
                  = (OutOfFuel, c0\<lparr>messenger := Some (m\<lparr>m_retry_limit := farm_retry_limit\<rparr>)\<rparr>, w')
               \<and> trace w' = trace w
                    @ Remote (m\<lparr>m_retry_limit := farm_retry_limit\<rparr>)
                        (Register (payout_address (cfg c)))
                    # BuilderBuild
                        (the_request env
                           (c0\<lparr>messenger := Some (m\<lparr>m_retry_limit := farm_retry_limit\<rparr>)\<rparr>)
                           False False (DEFAULT_NUMCORES env))
                    # evs
               \<and> filter is_register evs = []
               \<and> length (filter is_ping evs) = fuel"
    by (rule farm_runs[OF init msg ok bld nz quo])
next
  fix op r c' w'
  assume "messenger c = None \<and> op \<noteq> OpFarm \<and> run_op env fuel op (c, w) = (r, c', w')"
  then show "\<exists>evs. trace w' = trace w @ evs
           \<and> (\<forall>e\<in>set evs. \<forall>m. carried e = Some m \<longrightarrow> m_retry_limit m = retry_limit c)"
    using standalone_limit[of c op env fuel w r c' w'] by blast
qed

theorem farm_order_and_retry_limit_witness:
  "init_messenger quiet_env (fresh_client, start) = (Return (), a_client, start)
   \<and> messenger a_client = Some a_messenger
   \<and> retry_limit fresh_client = 3 \<and> m_retry_limit a_messenger = 3
   \<and> farm_retry_limit = 99999999999999999999999999999999999999
   \<and> (\<exists>w' evs. farm quiet_env (Suc (Suc 0)) (fresh_client, start)
          = (OutOfFuel, a_client\<lparr>messenger := Some (a_messenger\<lparr>m_retry_limit := farm_retry_limit\<rparr>)\<rparr>, w')
        \<and> trace w' = Remote (a_messenger\<lparr>m_retry_limit := farm_retry_limit\<rparr>)
                         (Register ''good-address'')
            # BuilderBuild (the_request quiet_env
                 (a_client\<lparr>messenger := Some (a_messenger\<lparr>m_retry_limit := farm_retry_limit\<rparr>)\<rparr>)
                 False False 1)
            # evs
        \<and> filter is_register evs = []
        \<and> length (filter is_ping evs) = Suc (Suc 0))
   \<and> run_op quiet_env 0 OpPing (fresh_client, start)
       = (Return (), a_client, \<lparr>clock = 0, trace = [Remote a_messenger Ping]\<rparr>)"
proof -
  have init: "init_messenger quiet_env (fresh_client, start) = (Return (), a_client, start)"
    by (simp add: init_messenger_def new_messenger_def fixture_defs)
  have msg: "messenger a_client = Some a_messenger"
    by (simp add: a_client_def)
  have ok: "(\<forall>tr e. reply quiet_env tr e = None
                 \<or> (is_register e \<and> reply quiet_env tr e = Some AddressAlreadyRegistered))
             \<and> (\<forall>req. \<exists>g. snd (builder quiet_env req) = Inr g)
             \<and> DEFAULT_SET_HEIGHT_INTERVAL quiet_env \<noteq> 0
             \<and> (\<exists>q. int_of_quotient (max_size fresh_client) (SHARD_SIZE quiet_env) = Inr q)"
    by (simp add: quiet_env_def fresh_client_def small_quotients)
  note T = farm_order_and_retry_limit[of quiet_env "Suc (Suc 0)" fresh_client start]
  have pin: "farm_retry_limit = 99999999999999999999999999999999999999"
    using T[THEN conjunct1] .
  from T[THEN conjunct2, THEN conjunct2, THEN conjunct2, THEN conjunct1, rule_format,
         OF conjI[OF init msg], THEN conjunct2, THEN conjunct2, rule_format, OF ok]
  have run: "\<exists>w' evs. farm quiet_env (Suc (Suc 0)) (fresh_client, start)
          = (OutOfFuel, a_client\<lparr>messenger := Some (a_messenger\<lparr>m_retry_limit := farm_retry_limit\<rparr>)\<rparr>, w')
        \<and> trace w' = trace start
            @ Remote (a_messenger\<lparr>m_retry_limit := farm_retry_limit\<rparr>)
                         (Register (payout_address (cfg fresh_client)))
            # BuilderBuild (the_request quiet_env
                 (a_client\<lparr>messenger := Some (a_messenger\<lparr>m_retry_limit := farm_retry_limit\<rparr>)\<rparr>)
                 False False (DEFAULT_NUMCORES quiet_env))
            # evs
        \<and> filter is_register evs = []
        \<and> length (filter is_ping evs) = Suc (Suc 0)" .
  have a: "trace start = []" "payout_address (cfg fresh_client) = ''good-address''"
    "DEFAULT_NUMCORES quiet_env = 1"
    by (simp_all add: fixture_defs)
  have p: "run_op quiet_env 0 OpPing (fresh_client, start)
       = (Return (), a_client, \<lparr>clock = 0, trace = [Remote a_messenger Ping]\<rparr>)"
    by (simp add: discard_def run_defs fixture_defs)
  have l: "retry_limit fresh_client = 3" "m_retry_limit a_messenger = 3"
    by (simp_all add: fixture_defs)
  show ?thesis
    using init msg run[unfolded a append_Nil] p l pin by blast
qed






lemma poll_limited_unfold:
  assumes init: "init_messenger env (c, w) = (Return (), c0, w)"
    and msg: "messenger c0 = Some m"
    and limit: "limit \<noteq> 0"
    and st: "stop_time_of w limit = Inr stop_time"
  shows "poll env fuel register_address delay (Some limit) (c, w) =
     (if register_address
      then (case reply env (trace w) (Remote m (Register (payout_address (cfg c)))) of
              None \<Rightarrow> poll_loop env fuel (Some stop_time) delay
                        (c0, advance env (Remote m (Register (payout_address (cfg c)))) w)
            | Some e \<Rightarrow>
                (Raise e, c0, advance env (Remote m (Register (payout_address (cfg c)))) w))
      else poll_loop env fuel (Some stop_time) delay (c, w))"
proof -
  have cfg0: "cfg c0 = cfg c" using init_keeps_cfg[OF init] by simp
  show ?thesis
    unfolding poll_limited[OF limit st]
    by (simp add: bind_def ret_def register_absorbed[OF init] register_Some[OF msg] cfg0
        split: option.splits)
qed

text \<open>
  Claim C5, amended. A \<^verbatim>\<open>poll\<close> with a limit other than 0 whose stop time, ``start plus
  limit seconds'', is a \<^verbatim>\<open>datetime\<close> (otherwise the call raises \<^verbatim>\<open>OverflowError\<close> before
  anything else), and a delay that \<^verbatim>\<open>time.sleep\<close> takes (below \<open>2^63\<close> nanoseconds), on a
  client whose messenger can be initialised; \<open>w0\<close> is the outside after the registration
  that \<open>register_address\<close> asks for, if it does. When that
  registration raises, so does \<^verbatim>\<open>poll\<close>; otherwise the loop starts. Each iteration pings
  first; if the ping raises, so does \<^verbatim>\<open>poll\<close>; otherwise, if the clock has reached the
  stop time, \<^verbatim>\<open>poll\<close> returns \<^verbatim>\<open>True\<close>, and if not it sleeps \<open>delay\<close> seconds and repeats.
  So when \<^verbatim>\<open>poll\<close> returns, it returns \<^verbatim>\<open>True\<close>, not before the stop time, after one or
  more pings with a sleep between two of them, and after two or more pings when the
  first ping ended before the stop time. When no call raises and the delay is above
  zero, \<^verbatim>\<open>poll\<close> does return. (For \<^verbatim>\<open>poll(delay=1, limit=2)\<close> started at \<open>T\<close>: it returns
  \<^verbatim>\<open>True\<close> at or after \<open>T + 2\<close> seconds.)
\<close>

theorem poll_with_deadline:
  assumes init: "init_messenger env (c, w) = (Return (), c0, w)"
    and msg: "messenger c0 = Some m"
    and limit: "limit \<noteq> 0"
    and st: "stop_time_of w limit = Inr stop_time"
    and w0: "w0 = (if register_address
                   then advance env (Remote m (Register (payout_address (cfg c)))) w else w)"
    and sleepable: "int delay * 1000000000 < 2 ^ 63"
  shows "stop_time = int (clock w) + limit * int second
     \<and> (\<forall>fuel e. register_address
            \<and> reply env (trace w) (Remote m (Register (payout_address (cfg c)))) = Some e \<longrightarrow>
          poll env fuel register_address delay (Some limit) (c, w) = (Raise e, c0, w0))
     \<and> (\<forall>fuel. (register_address \<longrightarrow>
                   reply env (trace w) (Remote m (Register (payout_address (cfg c)))) = None) \<longrightarrow>
          poll env (Suc fuel) register_address delay (Some limit) (c, w)
              = poll_loop env (Suc fuel) (Some stop_time) delay (c0, w0))
     \<and> (\<forall>fuel w1. poll_loop env (Suc fuel) (Some stop_time) delay (c0, w1) =
          (case reply env (trace w1) (Remote m Ping) of
             Some e \<Rightarrow> (Raise e, c0, advance env (Remote m Ping) w1)
           | None \<Rightarrow>
              if stop_time \<le> int (clock (advance env (Remote m Ping) w1))
              then (Return True, c0, advance env (Remote m Ping) w1)
              else poll_loop env fuel (Some stop_time) delay
                     (c0, advance env (Sleep delay) (advance env (Remote m Ping) w1))))
     \<and> (\<forall>fuel v c' w'.
          poll env fuel register_address delay (Some limit) (c, w) = (Return v, c', w') \<longrightarrow>
          v \<and> int (clock w) + limit * int second \<le> int (clock w')
          \<and> (\<exists>n. trace w' = trace w0 @ ping_pattern m delay n
                \<and> (int (clock (advance env (Remote m Ping) w0)) < stop_time \<longrightarrow> 1 \<le> n)))
     \<and> ((\<forall>tr. reply env tr (Remote m Ping) = None) \<and> 0 < delay
          \<and> (register_address \<longrightarrow>
                reply env (trace w) (Remote m (Register (payout_address (cfg c)))) = None) \<longrightarrow>
          (\<exists>fuel c' w'.
             poll env fuel register_address delay (Some limit) (c, w) = (Return True, c', w')))"
proof -
  let ?reg = "Remote m (Register (payout_address (cfg c)))"
  note unf = poll_limited_unfold[OF init msg limit st]
  have stop: "stop_time = int (clock w) + limit * int second"
    by (rule stop_time_of_Inr[OF st])
  have start: "poll env (Suc fuel) register_address delay (Some limit) (c, w)
              = poll_loop env (Suc fuel) (Some stop_time) delay (c0, w0)"
    if "register_address \<longrightarrow> reply env (trace w) ?reg = None" for fuel
    using that unfolding unf w0 by (simp add: poll_loop_absorbed[OF init])
  have c1: "\<forall>fuel e. register_address \<and> reply env (trace w) ?reg = Some e \<longrightarrow>
          poll env fuel register_address delay (Some limit) (c, w) = (Raise e, c0, w0)"
    unfolding unf w0 by simp
  have c3: "\<forall>fuel w1. poll_loop env (Suc fuel) (Some stop_time) delay (c0, w1) =
          (case reply env (trace w1) (Remote m Ping) of
             Some e \<Rightarrow> (Raise e, c0, advance env (Remote m Ping) w1)
           | None \<Rightarrow>
              if stop_time \<le> int (clock (advance env (Remote m Ping) w1))
              then (Return True, c0, advance env (Remote m Ping) w1)
              else poll_loop env fuel (Some stop_time) delay
                     (c0, advance env (Sleep delay) (advance env (Remote m Ping) w1)))"
    by (simp add: poll_loop_Suc_Some[OF msg])
  have c4: "v \<and> int (clock w) + limit * int second \<le> int (clock w')
          \<and> (\<exists>n. trace w' = trace w0 @ ping_pattern m delay n
                \<and> (int (clock (advance env (Remote m Ping) w0)) < stop_time \<longrightarrow> 1 \<le> n))"
    if run: "poll env fuel register_address delay (Some limit) (c, w) = (Return v, c', w')"
    for fuel v c' w'
  proof -
    have reg: "register_address \<longrightarrow> reply env (trace w) ?reg = None"
      using run unfolding unf by (auto split: option.splits)
    have "fuel \<noteq> 0"
      using run reg unfolding unf by (cases fuel) (auto split: option.splits if_splits)
    then obtain n where n: "fuel = Suc n" by (cases fuel) simp_all
    have "poll_loop env fuel (Some stop_time) delay (c0, w0) = (Return v, c', w')"
      using run unfolding n start[OF reg] .
    from poll_loop_return[OF msg this] show ?thesis using stop by simp
  qed
  have c5: "\<exists>fuel c' w'.
             poll env fuel register_address delay (Some limit) (c, w) = (Return True, c', w')"
    if a: "(\<forall>tr. reply env tr (Remote m Ping) = None) \<and> 0 < delay
          \<and> (register_address \<longrightarrow> reply env (trace w) ?reg = None)"
  proof -
    have "limit \<le> int (nat limit)" by simp
    then have "limit * int second \<le> int (nat limit) * int second"
      by (rule mult_right_mono) simp
    moreover have "clock w \<le> clock w0" unfolding w0 by (simp add: clock_advance)
    ultimately have bound: "stop_time \<le> int (clock w0) + int (nat limit) * int second"
      using stop by simp
    have a1: "\<forall>tr. reply env tr (Remote m Ping) = None" and a2: "0 < delay"
      and a3: "register_address \<longrightarrow> reply env (trace w) ?reg = None"
      using a by simp_all
    from poll_loop_terminates[OF msg a1 a2 bound] obtain w' where
      "poll_loop env (Suc (nat limit)) (Some stop_time) delay (c0, w0) = (Return True, c0, w')"
      by blast
    then have "poll env (Suc (nat limit)) register_address delay (Some limit) (c, w)
        = (Return True, c0, w')"
      unfolding start[OF a3] .
    then show ?thesis by blast
  qed
  show ?thesis
    using stop c1 start c3 c4 c5 by blast
qed

theorem poll_with_deadline_witness:
  "init_messenger quiet_env (fresh_client, start) = (Return (), a_client, start)
   \<and> messenger a_client = Some a_messenger
   \<and> stop_time_of start 2 = Inr 2000000
   \<and> poll quiet_env (Suc (Suc (Suc 0))) False 1 (Some 2) (fresh_client, start)
      = (Return True, a_client,
         \<lparr>clock = 2000000, trace = ping_pattern a_messenger 1 (Suc (Suc 0))\<rparr>)"
proof -
  have init: "init_messenger quiet_env (fresh_client, start) = (Return (), a_client, start)"
    by (simp add: init_messenger_def new_messenger_def fixture_defs)
  have msg: "messenger a_client = Some a_messenger"
    by (simp add: a_client_def)
  have st: "stop_time_of start 2 = Inr 2000000"
    by (simp add: stop_time_of_def datetime_max_def start_def second_def)
  have lim: "(2::int) \<noteq> 0" by simp
  have w0: "start = (if False
       then advance quiet_env (Remote a_messenger (Register (payout_address (cfg fresh_client))))
              start else start)" by simp
  have sl: "int 1 * 1000000000 < 2 ^ 63" by simp
  note T = poll_with_deadline[OF init msg lim st w0 sl]
  have "poll quiet_env (Suc (Suc (Suc 0))) False 1 (Some 2) (fresh_client, start)
      = poll_loop quiet_env (Suc (Suc (Suc 0))) (Some 2000000) 1 (a_client, start)"
    using T[THEN conjunct2, THEN conjunct2, THEN conjunct1] by simp
  also have "\<dots> = (Return True, a_client,
         \<lparr>clock = 2000000, trace = ping_pattern a_messenger 1 (Suc (Suc 0))\<rparr>)"
    by (simp add: run_defs fixture_defs)
  finally show ?thesis using init msg st by simp
qed

text \<open>
  A server that takes two seconds to answer a ping: \<^verbatim>\<open>poll(delay=1, limit=2)\<close> returns
  \<^verbatim>\<open>True\<close> after its first ping.
\<close>

theorem poll_two_pings_counterexample:
  "poll (quiet_env\<lparr>elapsed := \<lambda>tr e. if is_ping e then 2000000 else 0\<rparr>)
        (Suc (Suc (Suc 0))) False 1 (Some 2) (a_client, start)
     = (Return True, a_client, \<lparr>clock = 2000000, trace = [Remote a_messenger Ping]\<rparr>)
   \<and> length (filter is_ping [Remote a_messenger Ping]) = 1"
  by (simp add: run_defs fixture_defs)

text \<open>
  Beyond \<^verbatim>\<open>datetime\<close>'s range the call raises before it pings: \<^verbatim>\<open>poll(limit=10**12)\<close>.
\<close>

lemma poll_limit_out_of_range:
  "poll quiet_env fuel False 1 (Some (10 ^ 12)) (a_client, start)
     = (Raise OverflowError, a_client, start)"
  by (simp add: poll_def stop_time_of_def datetime_max_def start_def second_def)

text \<open>
  Claim C7, amended. \<^verbatim>\<open>config\<close> checks the payout address first: if it is given and not
  valid, the call raises \<^verbatim>\<open>InvalidAddress\<close>. If the payout address is absent or valid and
  the wallet is given and not valid, the call raises \<^verbatim>\<open>InvalidHWIF\<close>. Either raise comes
  before anything else: the client (its configuration, its messenger) and the outside
  (no \<^verbatim>\<open>config.save\<close>, no remote call, no second attempt) are as they were.
\<close>

theorem config_validation:
  "(\<forall>a. set_payout_address = Some a \<and> \<not> validate_address env a \<longrightarrow>
       config env set_wallet set_payout_address (c, w) = (Raise (InvalidAddress a), c, w))
   \<and> (\<forall>h. (set_payout_address = None \<or> validate_address env (the set_payout_address))
          \<and> set_wallet = Some h \<and> \<not> validate_wallet env h \<longrightarrow>
       config env set_wallet set_payout_address (c, w) = (Raise (InvalidHWIF h), c, w))"
  by (auto simp add: config_def)

theorem config_validation_witness:
  "\<not> validate_address quiet_env ''bad'' \<and> validate_address quiet_env ''good-address''
   \<and> \<not> validate_wallet quiet_env ''bad''
   \<and> config quiet_env None (Some ''bad'') (a_client, start)
        = (Raise (InvalidAddress ''bad''), a_client, start)
   \<and> config quiet_env (Some ''bad'') (Some ''good-address'') (a_client, start)
        = (Raise (InvalidHWIF ''bad''), a_client, start)
   \<and> config quiet_env (Some ''bad'') None (a_client, start)
        = (Raise (InvalidHWIF ''bad''), a_client, start)"
proof -
  have v: "\<not> validate_address quiet_env ''bad''" "validate_address quiet_env ''good-address''"
    "\<not> validate_wallet quiet_env ''bad''"
    by (simp_all add: quiet_env_def)
  have 1: "config quiet_env None (Some ''bad'') (a_client, start)
        = (Raise (InvalidAddress ''bad''), a_client, start)"
    using config_validation[of "Some ''bad''" quiet_env None a_client start] v by simp
  have 2: "config quiet_env (Some ''bad'') (Some ''good-address'') (a_client, start)
        = (Raise (InvalidHWIF ''bad''), a_client, start)"
    using config_validation[of "Some ''good-address''" quiet_env "Some ''bad''" a_client start] v
    by simp
  have 3: "config quiet_env (Some ''bad'') None (a_client, start)
        = (Raise (InvalidHWIF ''bad''), a_client, start)"
    using config_validation[of None quiet_env "Some ''bad''" a_client start] v by simp
  show ?thesis using v 1 2 3 by simp
qed

text \<open>
  A wallet and a payout address that are both not valid: the call raises
  \<^verbatim>\<open>InvalidAddress\<close>, not \<^verbatim>\<open>InvalidHWIF\<close>.
\<close>

theorem config_both_invalid_counterexample:
  "\<not> validate_wallet quiet_env ''bad''
   \<and> config quiet_env (Some ''bad'') (Some ''worse'') (a_client, start)
        = (Raise (InvalidAddress ''worse''), a_client, start)
   \<and> config quiet_env (Some ''bad'') (Some ''worse'') (a_client, start)
        \<noteq> (Raise (InvalidHWIF ''bad''), a_client, start)"
  by (simp add: config_def quiet_env_def)

lemma with_retry_always_retryable:
  assumes "\<forall>k. server k = Retryable"
  shows "with_retry server delay n k
       = (ConnectionExhausted, attempts_and_waits delay n k)"
proof (induction n arbitrary: k)
  case 0
  show ?case by simp
next
  case (Suc n)
  show ?case using assms Suc.IH[of "Suc k"] by simp
qed

lemma attempts_counted:
  "length (filter is_attempt (attempts_and_waits delay n k)) = n"
  by (induction n arbitrary: k) auto

text \<open>
  Claim C8 (against the retry algorithm as the specification words it). A client with
  no messenger yet hands its policy \<open>(retry_limit, retry_delay)\<close> to the messenger it
  constructs. A remote operation of that messenger against a server on which every
  attempt fails transiently is attempted exactly \<open>retry_limit\<close> times, with a wait of
  \<open>retry_delay\<close> seconds between two attempts, and then surfaces
  \<^verbatim>\<open>ConnectionExhausted\<close>.
\<close>

theorem retry_exhaustion:
  assumes "messenger c = None"
    and "init_messenger env (c, w) = (Return (), c0, w)"
    and "messenger c0 = Some m"
    and "\<forall>k. server k = Retryable"
  shows "m_retry_limit m = retry_limit c \<and> m_retry_delay m = retry_delay c
     \<and> retry_call m server
        = (ConnectionExhausted, attempts_and_waits (retry_delay c) (nat (retry_limit c)) 0)
     \<and> length (filter is_attempt (snd (retry_call m server))) = nat (retry_limit c)"
proof -
  from init_messenger_cases[OF assms(2)] assms(1,3)
  obtain wif where "m = new_messenger c wif" by auto
  then have p: "m_retry_limit m = retry_limit c" "m_retry_delay m = retry_delay c"
    by (simp_all add: new_messenger_def)
  have r: "retry_call m server
        = (ConnectionExhausted, attempts_and_waits (retry_delay c) (nat (retry_limit c)) 0)"
    unfolding retry_call_def p by (rule with_retry_always_retryable[OF assms(4)])
  show ?thesis using p r by (simp add: attempts_counted)
qed

theorem retry_exhaustion_witness:
  "retry_limit fresh_client = 3 \<and> retry_delay fresh_client = 0
   \<and> init_messenger quiet_env (fresh_client, start) = (Return (), a_client, start)
   \<and> retry_call a_messenger (\<lambda>k. Retryable)
      = (ConnectionExhausted, [Attempt 0, Wait 0, Attempt 1, Wait 0, Attempt 2])
   \<and> length (filter is_attempt (snd (retry_call a_messenger (\<lambda>k. Retryable)))) = 3"
proof -
  have none: "messenger fresh_client = None" by (simp add: fresh_client_def)
  have init: "init_messenger quiet_env (fresh_client, start) = (Return (), a_client, start)"
    by (simp add: init_messenger_def new_messenger_def fixture_defs)
  have msg: "messenger a_client = Some a_messenger" by (simp add: a_client_def)
  have srv: "\<forall>k. (\<lambda>k. Retryable) k = Retryable" by simp
  have pol: "retry_limit fresh_client = 3" "retry_delay fresh_client = 0"
    by (simp_all add: fresh_client_def)
  have three: "nat 3 = Suc (Suc (Suc 0))" by simp
  from retry_exhaustion[OF none init msg srv]
  have "retry_call a_messenger (\<lambda>k. Retryable)
        = (ConnectionExhausted, attempts_and_waits 0 (Suc (Suc (Suc 0))) 0)
     \<and> length (filter is_attempt (snd (retry_call a_messenger (\<lambda>k. Retryable)))) = 3"
    unfolding pol three by simp
  then show ?thesis using pol init by simp
qed









end
